theory Spec2Isabelle
  imports Complex_Main "HOL-Library.Word"
begin

section \<open>JavaScript numbers\<close>

text \<open>
  A JavaScript number is a binary64 value. It is modelled as the real number it denotes,
  and every arithmetic operation of the source gives the exact result rounded to the
  nearest binary64 value, ties to the even significand (\<open>round64\<close>): the spacing of
  the values around \<open>x\<close> is \<open>2\<close> to the power \<open>binary64_exponent x\<close>, with 53 bits of
  significand and the subnormal spacing below \<open>2\<close> to the \<open>-1022\<close>. \<^verbatim>\<open>Math.sqrt\<close> and
  \<^verbatim>\<open>Math.pow(x, 2)\<close> are taken as correctly rounded; \<^verbatim>\<open>Math.abs\<close>, \<^verbatim>\<open>Math.ceil\<close>,
  \<^verbatim>\<open>Math.max\<close> and the comparisons are exact. Overflow to an infinity and NaN are
  outside this model: it is about computations whose results stay below \<open>2\<close> to the
  \<open>1024\<close> in magnitude, and a statement about arbitrary amounts bounds them so that
  no operation overflows. Strings of the backend are only built and compared, so they
  are HOL strings (lists of bytes).
\<close>

type_synonym number = real

definition round_even :: "real \<Rightarrow> int" where
  "round_even t =
     (let f = \<lfloor>t\<rfloor>; r = t - of_int f
      in if r < 1 / 2 then f else if r > 1 / 2 then f + 1 else if even f then f else f + 1)"

definition binary64_exponent :: "real \<Rightarrow> int" where
  "binary64_exponent x = max (\<lfloor>log 2 \<bar>x\<bar>\<rfloor> - 52) (- 1074)"

definition round64 :: "real \<Rightarrow> number" where
  "round64 x =
     (if x = 0 then 0
      else let e = binary64_exponent x
           in of_int (round_even (x / 2 powi e)) * 2 powi e)"

section \<open>Anomaly engine: statistics\<close>

text \<open>\<^verbatim>\<open>values.reduce((sum, val) => sum + val, 0) / values.length\<close>, with the guard for
  the empty array first.\<close>

definition mean :: "number list \<Rightarrow> number" where
  "mean values =
     (if length values = 0 then 0
      else round64 (foldl (\<lambda>sum val. round64 (sum + val)) 0 values / real (length values)))"

definition standardDeviation :: "number list \<Rightarrow> number" where
  "standardDeviation values =
     (if length values = 0 then 0
      else let avg = mean values;
               squareDiffs = map (\<lambda>value. round64 (round64 (value - avg) ^ 2)) values;
               avgSquareDiff = mean squareDiffs
           in round64 (sqrt avgSquareDiff))"

definition zScore :: "number \<Rightarrow> number \<Rightarrow> number \<Rightarrow> number" where
  "zScore value mean' stdDev =
     (if stdDev = 0 then 0 else round64 (round64 (value - mean') / stdDev))"

section \<open>Anomaly engine: detection rules\<close>

datatype severity = Low | Medium | High

record AnomalyResult =
  isAnomaly :: bool
  type :: string
  severity :: severity
  description :: string

text \<open>
  \<^verbatim>\<open>Number.prototype.toFixed\<close> belongs to the platform; every rule takes it as the
  parameter \<open>toFixed\<close> (number, digits) and uses it only inside descriptions. The
  rules \<^verbatim>\<open>detectFrequencyAnomaly\<close> and \<^verbatim>\<open>detectSpendingSpike\<close> are called by neither
  \<^verbatim>\<open>analyzeTransaction\<close> nor \<^verbatim>\<open>batchAnalyze\<close> and are not embedded.
\<close>

type_synonym toFixed = "number \<Rightarrow> nat \<Rightarrow> string"

definition detectAmountAnomaly ::
  "toFixed \<Rightarrow> number \<Rightarrow> number list \<Rightarrow> number \<Rightarrow> AnomalyResult" where
  "detectAmountAnomaly toFixed amount historicalAmounts threshold =
     (if length historicalAmounts < 5 then
        \<lparr>isAnomaly = False, type = ''insufficient_data'', severity = Low,
         description = ''Not enough historical data for analysis''\<rparr>
      else
        let mean' = mean historicalAmounts;
            stdDev = standardDeviation historicalAmounts;
            zScore' = zScore amount mean' stdDev
        in if \<bar>zScore'\<bar> > threshold then
             \<lparr>isAnomaly = True, type = ''unusual_amount'',
              severity = (if \<bar>zScore'\<bar> > 4 then High
                          else if \<bar>zScore'\<bar> > 3 then Medium else Low),
              description = ''Transaction amount ($'' @ toFixed amount 2 @ '') is '' @
                 toFixed \<bar>zScore'\<bar> 1 @ '' standard deviations from your average ($'' @
                 toFixed mean' 2 @ '')''\<rparr>
           else
             \<lparr>isAnomaly = False, type = ''normal'', severity = Low,
              description = ''Transaction amount is within normal range''\<rparr>)"

definition detectLargeTransaction :: "toFixed \<Rightarrow> number \<Rightarrow> number \<Rightarrow> AnomalyResult" where
  "detectLargeTransaction toFixed amount percentile90 =
     (if amount > round64 (percentile90 * 2) then
        \<lparr>isAnomaly = True, type = ''large_transaction'',
         severity = (if amount > round64 (percentile90 * 5) then High else Medium),
         description = ''Large transaction detected: $'' @ toFixed amount 2 @
            '' (significantly above your typical spending)''\<rparr>
      else
        \<lparr>isAnomaly = False, type = ''normal'', severity = Low,
         description = ''Transaction size is normal''\<rparr>)"

text \<open>
  \<^verbatim>\<open>sortedValues[Math.max(0, index)]\<close>: reading a JavaScript array beyond its end gives
  \<^verbatim>\<open>undefined\<close>, which is the result \<open>None\<close> here.
\<close>

definition percentile :: "number list \<Rightarrow> number \<Rightarrow> number option" where
  "percentile sortedValues percentile' =
     (if length sortedValues = 0 then Some 0
      else let index =
                 \<lceil>round64 (round64 (percentile' / 100) * real (length sortedValues))\<rceil> - 1;
               i = max 0 index
           in if i < int (length sortedValues) then Some (sortedValues ! nat i) else None)"

text \<open>
  The argument types of \<^verbatim>\<open>analyzeTransaction\<close> and \<^verbatim>\<open>batchAnalyze\<close> are structural:
  \<^verbatim>\<open>{amount, category}\<close>, then with \<^verbatim>\<open>date\<close>, then with \<^verbatim>\<open>id\<close>. A category is a
  string or \<^verbatim>\<open>null\<close>.
\<close>

record amount_category =
  amount :: number
  category :: "string option"

record historical = amount_category +
  date :: string


text \<open>\<^verbatim>\<open>if (newTransaction.category)\<close>: \<^verbatim>\<open>null\<close> and the empty string are falsy.\<close>

definition truthy :: "string option \<Rightarrow> bool" where
  "truthy c = (case c of None \<Rightarrow> False | Some s \<Rightarrow> s \<noteq> [])"

text \<open>
  The default threshold 2.5 of \<^verbatim>\<open>detectAmountAnomaly\<close> is passed explicitly. With ten
  or more amounts \<^verbatim>\<open>percentile\<close> is defined; on \<^verbatim>\<open>undefined\<close> the comparison of
  \<^verbatim>\<open>detectLargeTransaction\<close> would be false and nothing would be pushed.
\<close>

definition analyzeTransaction ::
  "toFixed \<Rightarrow> 'a amount_category_scheme \<Rightarrow> 'b historical_scheme list \<Rightarrow> AnomalyResult list" where
  "analyzeTransaction toFixed newTransaction historicalTransactions =
     (let amounts = map amount historicalTransactions;
          sortedAmounts = sort amounts;
          amountAnomaly = detectAmountAnomaly toFixed (amount newTransaction) amounts 2.5;
          anomalies1 = (if isAnomaly amountAnomaly then [amountAnomaly] else []);
          anomalies2 =
            (if length amounts \<ge> 10 then
               (case percentile sortedAmounts 90 of
                  None \<Rightarrow> anomalies1
                | Some p90 \<Rightarrow>
                    let largeTransAnomaly =
                          detectLargeTransaction toFixed (amount newTransaction) p90
                    in if isAnomaly largeTransAnomaly then anomalies1 @ [largeTransAnomaly]
                       else anomalies1)
             else anomalies1)
      in if truthy (category newTransaction) then
           let categoryTransactions =
                 filter (\<lambda>t. category t = category newTransaction) historicalTransactions
           in if length categoryTransactions \<ge> 5 then
                let categoryAmounts = map amount categoryTransactions;
                    categoryAnomaly =
                      detectAmountAnomaly toFixed (amount newTransaction) categoryAmounts 2.0
                in if isAnomaly categoryAnomaly then
                     anomalies2 @
                       [categoryAnomaly\<lparr>type := ''unusual_category_amount'',
                          description := ''Unusual amount for '' @
                             the (category newTransaction) @ '': '' @
                             description categoryAnomaly\<rparr>]
                   else anomalies2
              else anomalies2
         else anomalies2)"

section \<open>Persistence: the SQLite tables\<close>

text \<open>
  The schema is the DDL of \<^verbatim>\<open>initDb\<close>. A table is the list of its rows in insertion
  order. Row identifiers are integers. \<^verbatim>\<open>AUTOINCREMENT\<close> keeps, per table, the largest
  rowid ever given (\<^verbatim>\<open>sqlite_sequence\<close>); only the one of \<^verbatim>\<open>anomalies\<close> is needed.
  Foreign keys are enforced (the default of better-sqlite3): an insert whose reference
  has no target fails, and \<^verbatim>\<open>ON DELETE CASCADE\<close> removes the referencing rows.
\<close>

record user_row =
  u_id :: int
  u_email :: string
  u_password_hash :: string
  u_created_at :: string
  u_updated_at :: string

record transaction_row =
  t_id :: int
  t_user_id :: int
  t_encrypted_data :: string
  t_iv :: string
  t_category :: "string option"
  t_amount_encrypted :: string
  t_date :: string
  t_created_at :: string
  t_updated_at :: string

record anomaly_row =
  a_id :: int
  a_user_id :: int
  a_transaction_id :: "int option"
  a_anomaly_type :: string
  a_severity :: severity
  a_description :: "string option"
  a_detected_at :: string
  a_acknowledged :: bool

record database =
  users :: "user_row list"
  transactions :: "transaction_row list"
  anomalies :: "anomaly_row list"
  anomalies_seq :: int

datatype db_error = SQLITE_CONSTRAINT_FOREIGNKEY

text \<open>
  \<^verbatim>\<open>CURRENT_TIMESTAMP\<close> is the clock of the database server; \<open>clock i\<close> is its value
  when the row with rowid \<open>i\<close> is inserted.
\<close>

type_synonym clock = "int \<Rightarrow> string"

section \<open>Persistence: AnomalyModel\<close>

record AnomalyCreateInput =
  in_user_id :: int
  in_transaction_id :: "int option"
  in_anomaly_type :: string
  in_severity :: severity
  in_description :: "string option"

definition AnomalyModel_findById :: "int \<Rightarrow> database \<Rightarrow> anomaly_row option" where
  "AnomalyModel_findById id' db = find (\<lambda>a. a_id a = id') (anomalies db)"

text \<open>The rowid of an \<^verbatim>\<open>AUTOINCREMENT\<close> insert: one more than the largest rowid in
  the table or ever given.\<close>

definition next_rowid :: "database \<Rightarrow> int" where
  "next_rowid db = fold max (map a_id (anomalies db)) (anomalies_seq db) + 1"

text \<open>
  \<^verbatim>\<open>data.transaction_id || null\<close> and \<^verbatim>\<open>data.description || null\<close>: a missing value, the
  number 0 and the empty string are stored as \<^verbatim>\<open>NULL\<close>. The result is what
  \<^verbatim>\<open>findById(lastInsertRowid)\<close> reads back; a failed insert throws and leaves the
  tables as they were.
\<close>

definition AnomalyModel_create ::
  "clock \<Rightarrow> AnomalyCreateInput \<Rightarrow> database \<Rightarrow> (db_error + anomaly_row option) \<times> database" where
  "AnomalyModel_create clock data db =
     (let transaction_id =
            (case in_transaction_id data of
               None \<Rightarrow> None
             | Some t \<Rightarrow> if t = 0 then None else Some t);
          description' =
            (case in_description data of
               None \<Rightarrow> None
             | Some d \<Rightarrow> if d = [] then None else Some d)
      in if in_user_id data \<notin> set (map u_id (users db)) then
           (Inl SQLITE_CONSTRAINT_FOREIGNKEY, db)
         else if (case transaction_id of
                    None \<Rightarrow> False
                  | Some t \<Rightarrow> t \<notin> set (map t_id (transactions db))) then
           (Inl SQLITE_CONSTRAINT_FOREIGNKEY, db)
         else
           let lastInsertRowid = next_rowid db;
               row = \<lparr>a_id = lastInsertRowid, a_user_id = in_user_id data,
                      a_transaction_id = transaction_id,
                      a_anomaly_type = in_anomaly_type data,
                      a_severity = in_severity data,
                      a_description = description',
                      a_detected_at = clock lastInsertRowid,
                      a_acknowledged = False\<rparr>;
               db' = db\<lparr>anomalies := anomalies db @ [row],
                        anomalies_seq := lastInsertRowid\<rparr>
           in (Inr (AnomalyModel_findById lastInsertRowid db'), db'))"

text \<open>\<^verbatim>\<open>UPDATE anomalies SET acknowledged = 1 WHERE id = ?\<close>; \<^verbatim>\<open>changes\<close> counts the
  rows the statement matched, whether or not their value was already 1.\<close>

definition AnomalyModel_acknowledge :: "int \<Rightarrow> database \<Rightarrow> bool \<times> database" where
  "AnomalyModel_acknowledge id' db =
     (let changes = length (filter (\<lambda>a. a_id a = id') (anomalies db));
          db' = db\<lparr>anomalies :=
                  map (\<lambda>a. if a_id a = id' then a\<lparr>a_acknowledged := True\<rparr> else a)
                    (anomalies db)\<rparr>
      in (changes > 0, db'))"

definition AnomalyModel_delete :: "int \<Rightarrow> database \<Rightarrow> bool \<times> database" where
  "AnomalyModel_delete id' db =
     (let changes = length (filter (\<lambda>a. a_id a = id') (anomalies db));
          db' = db\<lparr>anomalies := filter (\<lambda>a. a_id a \<noteq> id') (anomalies db)\<rparr>
      in (changes > 0, db'))"

section \<open>Persistence: deletions and their cascades\<close>

text \<open>
  \<^verbatim>\<open>DELETE FROM transactions WHERE ...\<close>: the rows matching the condition go, and with
  them (\<^verbatim>\<open>FOREIGN KEY (transaction_id) REFERENCES transactions(id) ON DELETE CASCADE\<close>)
  every anomaly whose \<^verbatim>\<open>transaction_id\<close> is the id of a deleted row. \<^verbatim>\<open>changes\<close> counts
  the rows of \<^verbatim>\<open>transactions\<close> only.
\<close>

definition delete_transactions ::
  "(transaction_row \<Rightarrow> bool) \<Rightarrow> database \<Rightarrow> nat \<times> database" where
  "delete_transactions cond db =
     (let deleted = map t_id (filter cond (transactions db));
          db' = db\<lparr>transactions := filter (\<lambda>t. \<not> cond t) (transactions db),
                   anomalies :=
                     filter (\<lambda>a. case a_transaction_id a of
                                    None \<Rightarrow> True
                                  | Some t \<Rightarrow> t \<notin> set deleted)
                       (anomalies db)\<rparr>
      in (length deleted, db'))"

definition TransactionModel_delete :: "int \<Rightarrow> database \<Rightarrow> bool \<times> database" where
  "TransactionModel_delete id' db =
     (case delete_transactions (\<lambda>t. t_id t = id') db of
        (changes, db') \<Rightarrow> (changes > 0, db'))"

definition TransactionModel_deleteByUserId :: "int \<Rightarrow> database \<Rightarrow> nat \<times> database" where
  "TransactionModel_deleteByUserId userId db =
     delete_transactions (\<lambda>t. t_user_id t = userId) db"

text \<open>
  No function of the repository deletes a user. The DDL fixes what
  \<^verbatim>\<open>DELETE FROM users WHERE id = ?\<close> does: the transactions of the user are deleted
  with their own cascade, and so are the anomalies whose \<^verbatim>\<open>user_id\<close> is the user's.
\<close>

definition delete_user :: "int \<Rightarrow> database \<Rightarrow> nat \<times> database" where
  "delete_user userId db =
     (let deleted = filter (\<lambda>u. u_id u = userId) (users db)
      in if deleted = [] then (0, db)
         else case delete_transactions (\<lambda>t. t_user_id t = userId) db of
                (_, db1) \<Rightarrow>
                  (length deleted,
                   db1\<lparr>users := filter (\<lambda>u. u_id u \<noteq> userId) (users db),
                       anomalies := filter (\<lambda>a. a_user_id a \<noteq> userId) (anomalies db1)\<rparr>))"

text \<open>
  One step of the database: a call of a function that writes the table \<^verbatim>\<open>anomalies\<close>,
  directly or through a cascade. Every other statement of the repository
  (\<^verbatim>\<open>UserModel.create\<close>, \<^verbatim>\<open>UserModel.updateLastLogin\<close>, \<^verbatim>\<open>TransactionModel.create\<close>,
  \<^verbatim>\<open>TransactionModel.update\<close>) writes \<^verbatim>\<open>users\<close> or \<^verbatim>\<open>transactions\<close> only; the last rule
  covers them all.
\<close>

inductive db_step :: "database \<Rightarrow> database \<Rightarrow> bool" where
  step_create: "AnomalyModel_create clock data db = (r, db') \<Longrightarrow> db_step db db'"
| step_acknowledge: "AnomalyModel_acknowledge id' db = (b, db') \<Longrightarrow> db_step db db'"
| step_delete: "AnomalyModel_delete id' db = (b, db') \<Longrightarrow> db_step db db'"
| step_delete_transaction: "TransactionModel_delete id' db = (b, db') \<Longrightarrow> db_step db db'"
| step_delete_transactions_of:
    "TransactionModel_deleteByUserId userId db = (n, db') \<Longrightarrow> db_step db db'"
| step_delete_user: "delete_user userId db = (n, db') \<Longrightarrow> db_step db db'"
| step_other_tables:
    "anomalies db' = anomalies db \<Longrightarrow> anomalies_seq db' = anomalies_seq db \<Longrightarrow> db_step db db'"

text \<open>The primary key of \<^verbatim>\<open>anomalies\<close> and its \<^verbatim>\<open>sqlite_sequence\<close> entry: no two rows
  share an id, and no id is larger than the largest ever given.\<close>

definition anomalies_keyed :: "database \<Rightarrow> bool" where
  "anomalies_keyed db =
     (distinct (map a_id (anomalies db))
      \<and> list_all (\<lambda>i. i \<le> anomalies_seq db) (map a_id (anomalies db)))"

section \<open>Anomaly engine: batch analysis\<close>




section \<open>Client: the platform\<close>

text \<open>
  The client runs on the Web platform. Its primitives are not code of the repository:
  the text codec (\<^verbatim>\<open>TextEncoder\<close>, \<^verbatim>\<open>TextDecoder\<close>), Base64 (\<^verbatim>\<open>btoa\<close>, \<^verbatim>\<open>atob\<close>), the Web
  Crypto API (\<^verbatim>\<open>crypto.subtle\<close>) and \<^verbatim>\<open>JSON.parse\<close>. They are the fields of a record
  that every client function takes first. \<open>pbkdf2\<close> stands for \<^verbatim>\<open>importKey\<close> followed by
  \<^verbatim>\<open>deriveKey\<close> with SHA-256 (password bytes, salt, iterations, key length). A rejected
  promise and a thrown exception are the left summand. The bytes that
  \<^verbatim>\<open>crypto.getRandomValues\<close> returns are an argument of the function that draws them.

  An engine refuses a call with too many arguments: \<^verbatim>\<open>String.fromCharCode(...bytes)\<close>
  throws a \<^verbatim>\<open>RangeError\<close> when the buffer is longer than the engine allows. The limit
  differs between engines (\<open>spread_limit\<close>); no current engine refuses fewer than 65535
  arguments, and the model takes that as the floor (\<open>argument_limit\<close>).

  A JavaScript string is the list of its 16-bit code units, a buffer the list of its
  bytes. Messages, storage keys and dates are only built and compared; they are HOL
  strings.
\<close>

type_synonym byte = "8 word"
type_synonym jsstring = "16 word list"

datatype js_error =
    InvalidCharacterError
  | OperationError
  | SyntaxError
  | RangeError
  | Error string

record ('key, 'json) platform =
  TextEncoder_encode :: "jsstring \<Rightarrow> byte list"
  TextDecoder_decode :: "byte list \<Rightarrow> jsstring"
  btoa :: "jsstring \<Rightarrow> js_error + jsstring"
  atob :: "jsstring \<Rightarrow> js_error + jsstring"
  pbkdf2 :: "byte list \<Rightarrow> byte list \<Rightarrow> nat \<Rightarrow> nat \<Rightarrow> js_error + 'key"
  subtle_encrypt :: "'key \<Rightarrow> byte list \<Rightarrow> byte list \<Rightarrow> js_error + byte list"
  subtle_decrypt :: "'key \<Rightarrow> byte list \<Rightarrow> byte list \<Rightarrow> js_error + byte list"
  JSON_parse :: "jsstring \<Rightarrow> js_error + 'json"
  spread_limit :: nat

definition argument_limit :: "('key, 'json) platform \<Rightarrow> nat" where
  "argument_limit P = max 65535 (spread_limit P)"

section \<open>Client: encryption utilities\<close>

definition KEY_LENGTH :: nat where "KEY_LENGTH = 256"
definition PBKDF2_ITERATIONS :: nat where "PBKDF2_ITERATIONS = 100000"
definition SALT_LENGTH :: nat where "SALT_LENGTH = 16"
definition IV_LENGTH :: nat where "IV_LENGTH = 12"

definition str2ab :: "('key, 'json) platform \<Rightarrow> jsstring \<Rightarrow> byte list" where
  "str2ab P str = TextEncoder_encode P str"

definition ab2str :: "('key, 'json) platform \<Rightarrow> byte list \<Rightarrow> jsstring" where
  "ab2str P buffer = TextDecoder_decode P buffer"

text \<open>\<^verbatim>\<open>String.fromCharCode(...new Uint8Array(buffer))\<close>: one code unit per byte, when
  the engine accepts that many arguments.\<close>

definition fromCharCode :: "byte list \<Rightarrow> jsstring" where
  "fromCharCode bytes = map ucast bytes"

definition ab2base64 :: "('key, 'json) platform \<Rightarrow> byte list \<Rightarrow> js_error + jsstring" where
  "ab2base64 P buffer =
     (if length buffer > argument_limit P then Inl RangeError
      else let binary = fromCharCode buffer in btoa P binary)"

text \<open>The loop \<^verbatim>\<open>bytes[i] = binary.charCodeAt(i)\<close> stores each code unit into a
  \<^verbatim>\<open>Uint8Array\<close>, which keeps its low eight bits.\<close>

definition base642ab :: "('key, 'json) platform \<Rightarrow> jsstring \<Rightarrow> js_error + byte list" where
  "base642ab P base64 =
     (case atob P base64 of
        Inl e \<Rightarrow> Inl e
      | Inr binary \<Rightarrow> Inr (map ucast binary))"

definition deriveKey ::
  "('key, 'json) platform \<Rightarrow> jsstring \<Rightarrow> byte list \<Rightarrow> js_error + 'key" where
  "deriveKey P password salt =
     (let passwordBuffer = str2ab P password
      in pbkdf2 P passwordBuffer salt PBKDF2_ITERATIONS KEY_LENGTH)"

record envelope =
  encryptedData :: jsstring
  iv :: jsstring

text \<open>\<open>iv\<close> is what \<^verbatim>\<open>crypto.getRandomValues(new Uint8Array(IV_LENGTH))\<close> returned.\<close>

definition encryptData ::
  "('key, 'json) platform \<Rightarrow> byte list \<Rightarrow> jsstring \<Rightarrow> 'key \<Rightarrow> js_error + envelope" where
  "encryptData P iv' data key =
     (case subtle_encrypt P key iv' (str2ab P data) of
        Inl e \<Rightarrow> Inl e
      | Inr encryptedBuffer \<Rightarrow>
          (case ab2base64 P encryptedBuffer of
             Inl e \<Rightarrow> Inl e
           | Inr encryptedData' \<Rightarrow>
               (case ab2base64 P iv' of
                  Inl e \<Rightarrow> Inl e
                | Inr ivText \<Rightarrow> Inr \<lparr>encryptedData = encryptedData', iv = ivText\<rparr>)))"

definition decryptData ::
  "('key, 'json) platform \<Rightarrow> jsstring \<Rightarrow> jsstring \<Rightarrow> 'key \<Rightarrow> js_error + jsstring" where
  "decryptData P encryptedData' iv' key =
     (case base642ab P encryptedData' of
        Inl e \<Rightarrow> Inl e
      | Inr encryptedBuffer \<Rightarrow>
          (case base642ab P iv' of
             Inl e \<Rightarrow> Inl e
           | Inr ivBuffer \<Rightarrow>
               (case subtle_decrypt P key ivBuffer encryptedBuffer of
                  Inl e \<Rightarrow> Inl e
                | Inr decryptedBuffer \<Rightarrow> Inr (ab2str P decryptedBuffer))))"

definition decryptTransaction ::
  "('key, 'json) platform \<Rightarrow> jsstring \<Rightarrow> jsstring \<Rightarrow> 'key \<Rightarrow> js_error + 'json" where
  "decryptTransaction P encryptedData' iv' key =
     (case decryptData P encryptedData' iv' key of
        Inl e \<Rightarrow> Inl e
      | Inr decryptedJson \<Rightarrow> JSON_parse P decryptedJson)"

section \<open>Client: salt storage and key manager\<close>

text \<open>\<^verbatim>\<open>localStorage\<close> is a map from keys to strings. The key of a user's salt is
  \<^verbatim>\<open>salt_\<close> followed by the decimal digits of the user id.\<close>

type_synonym localStorage = "string \<rightharpoonup> jsstring"

text \<open>The template literal prints the number in decimal, a minus sign first when it is
  negative.\<close>

function decimal :: "nat \<Rightarrow> string" where
  "decimal n =
     (let lowest = char_of (n mod 10 + 48)
      in if n div 10 = 0 then [lowest] else decimal (n div 10) @ [lowest])"
  by pat_completeness auto
termination
  by (relation "measure (\<lambda>n. n)") auto

declare decimal.simps [simp del]

definition Number_toString :: "int \<Rightarrow> string" where
  "Number_toString k = (if 0 \<le> k then decimal (nat k) else CHR ''-'' # decimal (nat (- k)))"

definition salt_key :: "int \<Rightarrow> string" where
  "salt_key userId = ''salt_'' @ Number_toString userId"

definition SaltStorage_saveSalt ::
  "('key, 'json) platform \<Rightarrow> int \<Rightarrow> byte list \<Rightarrow> localStorage \<Rightarrow> js_error + localStorage" where
  "SaltStorage_saveSalt P userId salt ls =
     (case ab2base64 P salt of
        Inl e \<Rightarrow> Inl e
      | Inr saltBase64 \<Rightarrow> Inr (ls(salt_key userId \<mapsto> saltBase64)))"

text \<open>\<^verbatim>\<open>if (!saltBase64) return null\<close>: a missing item and the empty string are falsy.\<close>

definition SaltStorage_getSalt ::
  "('key, 'json) platform \<Rightarrow> int \<Rightarrow> localStorage \<Rightarrow> js_error + byte list option" where
  "SaltStorage_getSalt P userId ls =
     (case ls (salt_key userId) of
        None \<Rightarrow> Inr None
      | Some saltBase64 \<Rightarrow>
          if saltBase64 = [] then Inr None
          else (case base642ab P saltBase64 of
                  Inl e \<Rightarrow> Inl e
                | Inr saltBuffer \<Rightarrow> Inr (Some saltBuffer)))"

definition SaltStorage_removeSalt :: "int \<Rightarrow> localStorage \<Rightarrow> localStorage" where
  "SaltStorage_removeSalt userId ls = ls(salt_key userId := None)"

text \<open>\<open>salt\<close> is what \<^verbatim>\<open>generateSalt()\<close> returned: \<^verbatim>\<open>SALT_LENGTH\<close> random bytes.\<close>

definition KeyManager_initializeForUser ::
  "('key, 'json) platform \<Rightarrow> byte list \<Rightarrow> int \<Rightarrow> jsstring \<Rightarrow> localStorage
     \<Rightarrow> (js_error + 'key) \<times> localStorage" where
  "KeyManager_initializeForUser P salt userId password ls =
     (case SaltStorage_saveSalt P userId salt ls of
        Inl e \<Rightarrow> (Inl e, ls)
      | Inr ls' \<Rightarrow> (deriveKey P password salt, ls'))"

definition KeyManager_getKeyForUser ::
  "('key, 'json) platform \<Rightarrow> int \<Rightarrow> jsstring \<Rightarrow> localStorage \<Rightarrow> js_error + 'key" where
  "KeyManager_getKeyForUser P userId password ls =
     (case SaltStorage_getSalt P userId ls of
        Inl e \<Rightarrow> Inl e
      | Inr None \<Rightarrow> Inl (Error ''Encryption salt not found. User may need to re-register.'')
      | Inr (Some salt) \<Rightarrow> deriveKey P password salt)"

definition KeyManager_clearUserData :: "int \<Rightarrow> localStorage \<Rightarrow> localStorage" where
  "KeyManager_clearUserData userId ls = SaltStorage_removeSalt userId ls"

section \<open>Client: the transactions hook\<close>

text \<open>
  The stored record as the client receives it, and the record it displays: the spread
  \<^verbatim>\<open>{id: tx.id, ...decryptedData, date: tx.date, ...}\<close> is kept as the fields taken from
  \<^verbatim>\<open>tx\<close> together with the parsed value.
\<close>

record Transaction =
  s_id :: int
  s_user_id :: int
  s_encrypted_data :: jsstring
  s_iv :: jsstring
  s_category :: "string option"
  s_amount_encrypted :: jsstring
  s_date :: string
  s_created_at :: string
  s_updated_at :: string

record 'json DecryptedTransaction =
  d_id :: int
  d_decryptedData :: 'json
  d_date :: string
  d_created_at :: string
  d_updated_at :: string

record 'json hook_state =
  h_transactions :: "'json DecryptedTransaction list"
  h_isLoading :: bool
  h_error :: "string option"

text \<open>
  An error inside the hook is the text of its \<^verbatim>\<open>message\<close>, the only property the hook
  reads. The callback of \<^verbatim>\<open>response.transactions.map\<close>: any failure of
  \<^verbatim>\<open>decryptTransaction\<close> is caught, logged and thrown again as a new error.
\<close>

definition decrypt_record ::
  "('key, 'json) platform \<Rightarrow> 'key \<Rightarrow> Transaction \<Rightarrow> string + 'json DecryptedTransaction" where
  "decrypt_record P encryptionKey tx =
     (case decryptTransaction P (s_encrypted_data tx) (s_iv tx) encryptionKey of
        Inl err \<Rightarrow> Inl ''Failed to decrypt transaction data''
      | Inr decryptedData \<Rightarrow>
          Inr \<lparr>d_id = s_id tx, d_decryptedData = decryptedData, d_date = s_date tx,
               d_created_at = s_created_at tx, d_updated_at = s_updated_at tx\<rparr>)"

text \<open>\<^verbatim>\<open>Promise.all\<close>: the results in the order of the input when every promise is
  fulfilled, and otherwise rejected with the reason of a rejected one (here all
  reasons carry the same message).\<close>

fun Promise_all :: "('e + 'a) list \<Rightarrow> 'e + 'a list" where
  "Promise_all [] = Inr []"
| "Promise_all (Inl e # ps) = Inl e"
| "Promise_all (Inr v # ps) =
     (case Promise_all ps of Inl e \<Rightarrow> Inl e | Inr vs \<Rightarrow> Inr (v # vs))"

text \<open>
  \<open>response\<close> is the outcome of \<^verbatim>\<open>api.getTransactions(startDate, endDate)\<close>: the stored
  records, or the message of the error it rejected with (empty when it has none).
  \<^verbatim>\<open>err.message || '...'\<close> takes the default for an empty message.
\<close>

definition fetchTransactions ::
  "('key, 'json) platform \<Rightarrow> 'key option \<Rightarrow> string + Transaction list \<Rightarrow> 'json hook_state
     \<Rightarrow> 'json hook_state" where
  "fetchTransactions P encryptionKey response st =
     (case encryptionKey of
        None \<Rightarrow> st\<lparr>h_error := Some ''Encryption key not available''\<rparr>
      | Some key \<Rightarrow>
          let st1 = st\<lparr>h_isLoading := True, h_error := None\<rparr>;
              outcome =
                (case response of
                   Inl err \<Rightarrow> Inl err
                 | Inr transactions' \<Rightarrow> Promise_all (map (decrypt_record P key) transactions'));
              st2 =
                (case outcome of
                   Inr decrypted \<Rightarrow> st1\<lparr>h_transactions := decrypted\<rparr>
                 | Inl err \<Rightarrow>
                     st1\<lparr>h_error := Some (if err = [] then ''Failed to fetch transactions''
                                            else err)\<rparr>)
          in st2\<lparr>h_isLoading := False\<rparr>)"

section \<open>Vocabulary of the statements\<close>



text \<open>A finding \<open>a\<close> is settled in a database when the key invariant holds, the
  sequence has passed its id, and any row with its id is \<open>a\<close> itself.\<close>

definition settled :: "anomaly_row \<Rightarrow> database \<Rightarrow> bool" where
  "settled a db =
     (anomalies_keyed db \<and> a_id a \<le> anomalies_seq db
      \<and> (\<forall>a'\<in>set (anomalies db). a_id a' = a_id a \<longrightarrow> a' = a))"

text \<open>
  What the client relies on from Base64: \<^verbatim>\<open>btoa\<close> accepts a string of code units below
  256, \<^verbatim>\<open>atob\<close> gives that string back, and only the empty string is encoded as the
  empty string.
\<close>

definition base64_contract :: "('key, 'json) platform \<Rightarrow> bool" where
  "base64_contract P =
     (\<forall>bytes. \<exists>b64. btoa P (fromCharCode bytes) = Inr b64
                     \<and> atob P b64 = Inr (fromCharCode bytes)
                     \<and> (b64 = [] \<longrightarrow> bytes = []))"

section \<open>The text codec of the platform\<close>

text \<open>
  \<^verbatim>\<open>new TextEncoder().encode\<close> and \<^verbatim>\<open>new TextDecoder().decode\<close> as the Encoding Standard
  defines them, for running the client functions on concrete strings. Encoding reads the
  code units as scalar values, an unpaired surrogate becoming U+FFFD, and writes each in
  UTF-8. Decoding reads UTF-8, gives U+FFFD for every ill-formed sequence, and drops one
  leading U+FEFF (\<^verbatim>\<open>ignoreBOM\<close> is false by default).
\<close>

fun scalar_values :: "jsstring \<Rightarrow> nat list" where
  "scalar_values [] = []"
| "scalar_values [u] = [if 0xD800 \<le> u \<and> u \<le> 0xDFFF then 0xFFFD else unat u]"
| "scalar_values (u # v # rest) =
     (if 0xD800 \<le> u \<and> u \<le> 0xDBFF \<and> 0xDC00 \<le> v \<and> v \<le> 0xDFFF
      then (0x10000 + (unat u - 0xD800) * 0x400 + (unat v - 0xDC00)) # scalar_values rest
      else (if 0xD800 \<le> u \<and> u \<le> 0xDFFF then 0xFFFD else unat u)
             # scalar_values (v # rest))"

definition utf8_bytes :: "nat \<Rightarrow> byte list" where
  "utf8_bytes c =
     (if c < 0x80 then [of_nat c]
      else if c < 0x800 then [of_nat (0xC0 + c div 0x40), of_nat (0x80 + c mod 0x40)]
      else if c < 0x10000 then
        [of_nat (0xE0 + c div 0x1000), of_nat (0x80 + c div 0x40 mod 0x40),
         of_nat (0x80 + c mod 0x40)]
      else
        [of_nat (0xF0 + c div 0x40000), of_nat (0x80 + c div 0x1000 mod 0x40),
         of_nat (0x80 + c div 0x40 mod 0x40), of_nat (0x80 + c mod 0x40)])"

definition utf8_encode :: "jsstring \<Rightarrow> byte list" where
  "utf8_encode str = concat (map utf8_bytes (scalar_values str))"

text \<open>The first byte of a sequence: a scalar value of its own, the start of a sequence
  (bits read so far, bytes still needed, bounds of the next byte), or no start at all.\<close>

datatype lead = Single nat | Start nat nat nat nat | NoStart

definition lead_byte :: "nat \<Rightarrow> lead" where
  "lead_byte b =
     (if b \<le> 0x7F then Single b
      else if 0xC2 \<le> b \<and> b \<le> 0xDF then Start (b - 0xC0) 1 0x80 0xBF
      else if 0xE0 \<le> b \<and> b \<le> 0xEF then
        Start (b - 0xE0) 2 (if b = 0xE0 then 0xA0 else 0x80) (if b = 0xED then 0x9F else 0xBF)
      else if 0xF0 \<le> b \<and> b \<le> 0xF4 then
        Start (b - 0xF0) 3 (if b = 0xF0 then 0x90 else 0x80) (if b = 0xF4 then 0x8F else 0xBF)
      else NoStart)"

fun utf8_scalars :: "(nat \<times> nat \<times> nat \<times> nat) option \<Rightarrow> nat list \<Rightarrow> nat list" where
  "utf8_scalars None [] = []"
| "utf8_scalars (Some pending) [] = [0xFFFD]"
| "utf8_scalars None (b # bs) =
     (case lead_byte b of
        Single c \<Rightarrow> c # utf8_scalars None bs
      | Start c needed lower upper \<Rightarrow> utf8_scalars (Some (c, needed, lower, upper)) bs
      | NoStart \<Rightarrow> 0xFFFD # utf8_scalars None bs)"
| "utf8_scalars (Some (c, needed, lower, upper)) (b # bs) =
     (if lower \<le> b \<and> b \<le> upper then
        (if needed = 1 then (c * 0x40 + (b - 0x80)) # utf8_scalars None bs
         else utf8_scalars (Some (c * 0x40 + (b - 0x80), needed - 1, 0x80, 0xBF)) bs)
      else
        0xFFFD #
          (case lead_byte b of
             Single c' \<Rightarrow> c' # utf8_scalars None bs
           | Start c' needed' lower' upper' \<Rightarrow>
               utf8_scalars (Some (c', needed', lower', upper')) bs
           | NoStart \<Rightarrow> 0xFFFD # utf8_scalars None bs))"

definition code_units :: "nat \<Rightarrow> jsstring" where
  "code_units c =
     (if c < 0x10000 then [of_nat c]
      else [of_nat (0xD800 + (c - 0x10000) div 0x400),
            of_nat (0xDC00 + (c - 0x10000) mod 0x400)])"

definition utf8_decode :: "byte list \<Rightarrow> jsstring" where
  "utf8_decode bytes =
     (let scalars = utf8_scalars None (map unat bytes)
      in concat (map code_units
           (case scalars of
              [] \<Rightarrow> []
            | c # rest \<Rightarrow> if c = 0xFEFF then rest else scalars)))"

text \<open>
  The strings that the encoder reads without writing U+FFFD: every surrogate is half of
  a pair. Their scalar values are the code points outside the surrogate range.
\<close>

fun well_formed :: "jsstring \<Rightarrow> bool" where
  "well_formed [] = True"
| "well_formed [u] = (\<not> (0xD800 \<le> u \<and> u \<le> 0xDFFF))"
| "well_formed (u # v # rest) =
     (if 0xD800 \<le> u \<and> u \<le> 0xDBFF \<and> 0xDC00 \<le> v \<and> v \<le> 0xDFFF
      then well_formed rest
      else \<not> (0xD800 \<le> u \<and> u \<le> 0xDFFF) \<and> well_formed (v # rest))"

definition starts_with_BOM :: "jsstring \<Rightarrow> bool" where
  "starts_with_BOM str = (case str of [] \<Rightarrow> False | u # rest \<Rightarrow> u = 0xFEFF)"

definition is_scalar :: "nat \<Rightarrow> bool" where
  "is_scalar c = (c < 0xD800 \<or> (0xE000 \<le> c \<and> c < 0x110000))"

section \<open>Sample data\<close>

text \<open>
  A small platform on which the functions can be run: the text codec is the one above,
  Base64 is the identity on strings of bytes, the derived key is the password followed
  by the salt, the cipher puts the key in front of the plaintext and refuses a
  ciphertext that does not start with it, and the engine accepts 131072 arguments.
\<close>

definition sample_platform :: "(byte list, jsstring) platform" where
  "sample_platform =
     \<lparr>TextEncoder_encode = utf8_encode,
      TextDecoder_decode = utf8_decode,
      btoa = (\<lambda>s. if list_all (\<lambda>c. c < 256) s then Inr s else Inl InvalidCharacterError),
      atob = (\<lambda>s. if list_all (\<lambda>c. c < 256) s then Inr s else Inl InvalidCharacterError),
      pbkdf2 = (\<lambda>password salt iterations len. Inr (password @ salt)),
      subtle_encrypt = (\<lambda>key iv' data. Inr (key @ data)),
      subtle_decrypt = (\<lambda>key iv' data.
         if take (length key) data = key then Inr (drop (length key) data)
         else Inl OperationError),
      JSON_parse = (\<lambda>s. if s = [] then Inl SyntaxError else Inr s),
      spread_limit = 131072\<rparr>"

definition sample_key :: "byte list" where
  "sample_key = [0x70, 0x77, 0x01, 0x02]"

definition sample_good :: Transaction where
  "sample_good =
     \<lparr>s_id = 1, s_user_id = 1, s_encrypted_data = [0x70, 0x77, 0x01, 0x02, 0x7B, 0x7D],
      s_iv = [0x09], s_category = Some ''Food'', s_amount_encrypted = [0x70, 0x77, 0x01, 0x02, 0x35],
      s_date = ''2024-01-01'', s_created_at = ''2024-01-01 10:00:00'',
      s_updated_at = ''2024-01-01 10:00:00''\<rparr>"

definition sample_bad :: Transaction where
  "sample_bad =
     \<lparr>s_id = 2, s_user_id = 1, s_encrypted_data = [0x66, 0x6F, 0x6F],
      s_iv = [0x09], s_category = None, s_amount_encrypted = [0x70, 0x77, 0x01, 0x02, 0x36],
      s_date = ''2024-01-02'', s_created_at = ''2024-01-02 10:00:00'',
      s_updated_at = ''2024-01-02 10:00:00''\<rparr>"

definition sample_state :: "jsstring hook_state" where
  "sample_state = \<lparr>h_transactions = [], h_isLoading = False, h_error = None\<rparr>"


definition sample_toFixed :: toFixed where
  "sample_toFixed = (\<lambda>x digits. ''?'')"

definition sample_ranks :: "number list" where
  "sample_ranks =
     [1, 2, 3, 4, 5, 6, 7, 8, 9, 10, 11, 12, 13, 14, 15, 16, 17, 18, 19, 20, 21, 22, 23, 24, 25]"


definition sample_history :: "historical list" where
  "sample_history =
     map (\<lambda>(a, c). \<lparr>amount = a, category = c, date = ''2024-01-01''\<rparr>)
       [(10, Some ''Food''), (10, Some ''Food''), (10, Some ''Food''), (10, Some ''Food''),
        (10, Some ''Food''), (10, None), (10, Some ''Rent''), (10, Some ''Food''),
        (10, Some ''Food''), (100, Some ''Food'')]"


definition sample_finding :: anomaly_row where
  "sample_finding =
     \<lparr>a_id = 1, a_user_id = 1, a_transaction_id = Some 10,
      a_anomaly_type = ''unusual_amount'', a_severity = Low,
      a_description = Some ''Amount is unusual'', a_detected_at = ''2024-01-15 09:30:00'',
      a_acknowledged = True\<rparr>"

definition sample_db :: database where
  "sample_db =
     \<lparr>users = [\<lparr>u_id = 1, u_email = ''a@example.org'', u_password_hash = ''$2b$12$x'',
                 u_created_at = ''2024-01-01 00:00:00'', u_updated_at = ''2024-01-01 00:00:00''\<rparr>],
      transactions =
        map (\<lambda>i. \<lparr>t_id = i, t_user_id = 1, t_encrypted_data = ''AAAA'', t_iv = ''BBBB'',
                   t_category = Some ''Food'', t_amount_encrypted = ''CCCC'',
                   t_date = ''2024-01-01'', t_created_at = ''2024-01-01 00:00:00'',
                   t_updated_at = ''2024-01-01 00:00:00''\<rparr>)
          [1, 2, 3, 4, 5, 6, 7, 8, 9, 10],
      anomalies = [sample_finding],
      anomalies_seq = 1\<rparr>"



section \<open>Rounding to binary64\<close>

lemma round_even_of_int [simp]: "round_even (of_int i) = i"
  by (simp add: round_even_def)

lemma round_even_bounds: "\<lfloor>t\<rfloor> \<le> round_even t \<and> round_even t \<le> \<lfloor>t\<rfloor> + 1"
  by (simp add: round_even_def Let_def)

lemma round_even_mono:
  assumes "s \<le> t"
  shows "round_even s \<le> round_even t"
proof (cases "\<lfloor>s\<rfloor> = \<lfloor>t\<rfloor>")
  case True
  then have "s - of_int \<lfloor>s\<rfloor> \<le> t - of_int \<lfloor>t\<rfloor>" using assms by simp
  then show ?thesis using True by (auto simp: round_even_def Let_def)
next
  case False
  then have "\<lfloor>s\<rfloor> < \<lfloor>t\<rfloor>" using floor_mono[OF assms] by simp
  then have "round_even s \<le> \<lfloor>t\<rfloor>" using round_even_bounds[of s] by simp
  then show ?thesis using round_even_bounds[of t] by simp
qed

lemma round_even_minus: "round_even (- t) = - round_even t"
proof (cases "t = of_int \<lfloor>t\<rfloor>")
  case True
  then obtain i where "t = of_int i" by blast
  then have "- t = of_int (- i)" by simp
  then show ?thesis using \<open>t = of_int i\<close> by (simp only: round_even_of_int)
next
  case False
  have "\<lceil>t\<rceil> = \<lfloor>t\<rfloor> + 1" using False by (simp add: ceiling_altdef)
  then have fl: "\<lfloor>- t\<rfloor> = - \<lfloor>t\<rfloor> - 1"
    by (simp add: floor_minus)
  let ?f = "\<lfloor>t\<rfloor>" and ?r = "t - of_int \<lfloor>t\<rfloor>"
  have r': "- t - of_int \<lfloor>- t\<rfloor> = 1 - ?r" by (simp add: fl)
  have ev: "even (- ?f - 1) = odd ?f" by simp
  show ?thesis
    unfolding round_even_def Let_def r' fl ev
    by (auto simp: algebra_simps)
qed


lemma round_even_0 [simp]: "round_even 0 = 0"
  using round_even_of_int[of 0] by simp

lemma round_even_nonneg: "0 \<le> t \<Longrightarrow> 0 \<le> round_even t"
  using round_even_mono[of 0 t] by simp

lemma two_powi_pos [simp]: "0 < (2::real) powi e"
  by simp

lemma two_powi_powr: "(2::real) powr real_of_int k = 2 powi k"
  by (rule powr_real_of_int') simp_all

lemma floor_log2_bounds:
  assumes "0 < x"
  shows "2 powi \<lfloor>log 2 x\<rfloor> \<le> x \<and> x < 2 powi (\<lfloor>log 2 x\<rfloor> + 1)"
proof -
  have "2 powr real_of_int \<lfloor>log 2 x\<rfloor> \<le> x \<and> x < 2 powr real_of_int (\<lfloor>log 2 x\<rfloor> + 1)"
    using floor_log_eq_powr_iff[of x 2 "\<lfloor>log 2 x\<rfloor>"] assms by simp
  then show ?thesis by (simp only: two_powi_powr)
qed

lemma floor_log2_eq:
  assumes "2 powi k \<le> x" and "x < 2 powi (k + 1)"
  shows "\<lfloor>log 2 x\<rfloor> = k"
proof -
  have "0 < x" using assms(1) two_powi_pos[of k] by linarith
  moreover have "2 powr real_of_int k \<le> x \<and> x < 2 powr (real_of_int k + 1)"
    using assms two_powi_powr[of k] two_powi_powr[of "k + 1"] by simp
  ultimately show ?thesis using floor_log_eq_powr_iff[of x 2 k] by simp
qed

lemma binary64_exponent_minus [simp]: "binary64_exponent (- x) = binary64_exponent x"
  by (simp add: binary64_exponent_def)

lemma round64_minus: "round64 (- x) = - round64 x"
  by (simp add: round64_def Let_def round_even_minus)

lemma round64_0 [simp]: "round64 0 = 0"
  by (simp add: round64_def)

lemma round64_nonneg: "0 \<le> x \<Longrightarrow> 0 \<le> round64 x"
  by (simp add: round64_def Let_def round_even_nonneg)

lemma round64_nonpos: "x \<le> 0 \<Longrightarrow> round64 x \<le> 0"
  using round64_nonneg[of "- x"] by (simp add: round64_minus)

text \<open>Evaluation: once the scaled value lies in the range of a 53-bit significand.\<close>

lemma round64_scaled:
  assumes "- 1074 \<le> e" and "2 powi (52 + e) \<le> \<bar>x\<bar>" and "\<bar>x\<bar> < 2 powi (53 + e)"
  shows "round64 x = of_int (round_even (x / 2 powi e)) * 2 powi e"
proof -
  have "\<lfloor>log 2 \<bar>x\<bar>\<rfloor> = 52 + e"
    using assms(2,3) by (intro floor_log2_eq) (simp_all add: add.commute add.left_commute)
  then have "binary64_exponent x = e" using assms(1) by (simp add: binary64_exponent_def)
  moreover have "x \<noteq> 0"
  proof
    assume "x = 0"
    then have "(2::real) powi (52 + e) \<le> 0" using assms(2) by simp
    then show False using two_powi_pos[of "52 + e"] by linarith
  qed
  ultimately show ?thesis by (simp add: round64_def)
qed

lemma round64_subnormal:
  assumes "\<bar>x\<bar> < 2 powi (- 1022)"
  shows "round64 x = of_int (round_even (x / 2 powi (- 1074))) * 2 powi (- 1074)"
proof (cases "x = 0")
  case True
  then show ?thesis by simp
next
  case False
  then have pos: "0 < \<bar>x\<bar>" by simp
  have k: "\<lfloor>log 2 \<bar>x\<bar>\<rfloor> < - 1022"
  proof (rule ccontr)
    assume "\<not> \<lfloor>log 2 \<bar>x\<bar>\<rfloor> < - 1022"
    then have "- 1022 \<le> \<lfloor>log 2 \<bar>x\<bar>\<rfloor>" by simp
    then have "(2::real) powi (- 1022) \<le> 2 powi \<lfloor>log 2 \<bar>x\<bar>\<rfloor>"
      by (intro power_int_increasing) simp_all
    then show False using floor_log2_bounds[OF pos] assms by linarith
  qed
  have "\<lfloor>log 2 \<bar>x\<bar>\<rfloor> - 52 \<le> - 1074" using k by linarith
  then have "binary64_exponent x = - 1074"
    by (simp only: binary64_exponent_def max_absorb2)
  then show ?thesis using False by (simp add: round64_def)
qed

lemma two_powi_le_iff: "(2::real) powi a \<le> 2 powi b \<longleftrightarrow> a \<le> b"
proof
  assume h: "(2::real) powi a \<le> 2 powi b"
  show "a \<le> b"
  proof (rule ccontr)
    assume "\<not> a \<le> b"
    then have "b < a" by simp
    then have "(2::real) powi b < 2 powi a" by (intro power_int_strict_increasing) simp_all
    then show False using h by linarith
  qed
next
  assume "a \<le> b"
  then show "(2::real) powi a \<le> 2 powi b" by (intro power_int_increasing) simp_all
qed

lemma two_powi_less_iff: "(2::real) powi a < 2 powi b \<longleftrightarrow> a < b"
  using two_powi_le_iff[of b a] by (auto simp: not_le[symmetric])

lemma two_powi_add: "(2::real) powi (a + b) = 2 powi a * 2 powi b"
  by (rule power_int_add) simp

lemma round64_integral:
  assumes "x / 2 powi binary64_exponent x = of_int m"
  shows "round64 x = x"
proof (cases "x = 0")
  case True
  then show ?thesis by simp
next
  case False
  have "round64 x = of_int m * 2 powi binary64_exponent x"
    using False assms by (simp add: round64_def Let_def)
  also have "\<dots> = x / 2 powi binary64_exponent x * 2 powi binary64_exponent x"
    by (simp only: assms)
  also have "\<dots> = x" by simp
  finally show ?thesis .
qed

lemma round64_of_pos_int:
  assumes "0 < i" and "i \<le> 2 ^ 53"
  shows "round64 (of_int i) = of_int i"
proof -
  let ?x = "real_of_int i"
  define k where "k = \<lfloor>log 2 ?x\<rfloor>"
  have pos: "0 < ?x" using assms(1) by simp
  have b: "2 powi k \<le> ?x" "?x < 2 powi (k + 1)"
    using floor_log2_bounds[OF pos] by (simp_all add: k_def)
  have "(2::real) powi 0 \<le> ?x" using assms(1) by simp
  then have "(2::real) powi 0 < 2 powi (k + 1)" using b(2) by linarith
  then have "0 < k + 1" by (simp only: two_powi_less_iff)
  then have k0: "0 \<le> k" by linarith
  have "?x \<le> 2 powi 53" using assms(2) by (simp flip: of_int_le_iff)
  then have "(2::real) powi k \<le> 2 powi 53" using b(1) by linarith
  then have k53: "k \<le> 53" by (simp only: two_powi_le_iff)
  have "binary64_exponent ?x = max (k - 52) (- 1074)"
    using pos by (simp add: binary64_exponent_def k_def)
  then have e: "binary64_exponent ?x = k - 52" using k0 by simp
  show ?thesis
  proof (cases "k \<le> 52")
    case True
    define n where "n = nat (52 - k)"
    have n: "k - 52 = - int n" using True by (simp add: n_def)
    have "?x / 2 powi (k - 52) = of_int (i * 2 ^ n)"
      by (simp add: n power_int_minus field_simps)
    then show ?thesis using e by (intro round64_integral[where m = "i * 2 ^ n"]) simp
  next
    case False
    then have k: "k = 53" using k53 by simp
    then have "(2::real) ^ 53 \<le> ?x" using b(1) by simp
    then have "(2::int) ^ 53 \<le> i" by (simp flip: of_int_le_iff)
    then have i: "i = 2 ^ 53" using assms(2) by simp
    have "?x / 2 powi (k - 52) = of_int (2 ^ 52)"
      by (simp add: k i)
    then show ?thesis using e by (intro round64_integral[where m = "2 ^ 52"]) simp
  qed
qed

lemma round64_of_int:
  assumes "\<bar>i\<bar> \<le> 2 ^ 53"
  shows "round64 (of_int i) = of_int i"
proof (cases "0 < i")
  case True
  then show ?thesis using assms by (intro round64_of_pos_int) simp_all
next
  case False
  show ?thesis
  proof (cases "i = 0")
    case True
    then show ?thesis by simp
  next
    case False
    then have "0 < - i" "- i \<le> 2 ^ 53" using \<open>\<not> 0 < i\<close> assms by simp_all
    then have "round64 (of_int (- i)) = of_int (- i)" by (rule round64_of_pos_int)
    then show ?thesis by (simp add: round64_minus)
  qed
qed

lemma round64_mono_pos:
  assumes "0 < x" and "x \<le> y"
  shows "round64 x \<le> round64 y"
proof -
  define kx where "kx = \<lfloor>log 2 x\<rfloor>"
  define ky where "ky = \<lfloor>log 2 y\<rfloor>"
  define ex where "ex = max (kx - 52) (- 1074)"
  define ey where "ey = max (ky - 52) (- 1074)"
  have ypos: "0 < y" using assms by linarith
  have "log 2 x \<le> log 2 y" using assms ypos by simp
  then have kxy: "kx \<le> ky" unfolding kx_def ky_def by (rule floor_mono)
  then have exy: "ex \<le> ey" by (simp add: ex_def ey_def)
  have bx: "x < 2 powi (kx + 1)" using floor_log2_bounds[OF assms(1)] by (simp add: kx_def)
  have by': "2 powi ky \<le> y" using floor_log2_bounds[OF ypos] by (simp add: ky_def)
  have rx: "round64 x = of_int (round_even (x / 2 powi ex)) * 2 powi ex"
    using assms(1) by (simp add: round64_def Let_def binary64_exponent_def ex_def kx_def)
  have ry: "round64 y = of_int (round_even (y / 2 powi ey)) * 2 powi ey"
    using ypos by (simp add: round64_def Let_def binary64_exponent_def ey_def ky_def)
  show ?thesis
  proof (cases "ex = ey")
    case True
    have "x / 2 powi ey \<le> y / 2 powi ey"
      using assms(2) by (intro divide_right_mono) simp_all
    then have "round_even (x / 2 powi ey) \<le> round_even (y / 2 powi ey)"
      by (rule round_even_mono)
    then have "real_of_int (round_even (x / 2 powi ey)) * 2 powi ey
                 \<le> real_of_int (round_even (y / 2 powi ey)) * 2 powi ey"
      by (intro mult_right_mono) simp_all
    then show ?thesis by (simp only: rx ry True)
  next
    case False
    then have lt: "ex < ey" using exy by simp
    then have "- 1074 < ey" by (simp add: ex_def)
    then have ey: "ey = ky - 52" by (simp add: ey_def)
    have "(2::real) powi 52 * 2 powi ey = 2 powi ky"
      using two_powi_add[of 52 ey] by (simp add: ey)
    then have "(2::real) powi 52 * 2 powi ey \<le> y" using by' by simp
    then have "(2::real) powi 52 \<le> y / 2 powi ey"
      by (simp add: pos_le_divide_eq)
    then have "real_of_int (2 ^ 52) \<le> y / 2 powi ey" by simp
    then have "round_even (real_of_int (2 ^ 52)) \<le> round_even (y / 2 powi ey)"
      by (rule round_even_mono)
    then have "2 ^ 52 \<le> round_even (y / 2 powi ey)" by (simp only: round_even_of_int)
    then have "real_of_int (2 ^ 52) \<le> real_of_int (round_even (y / 2 powi ey))"
      by (simp only: of_int_le_iff)
    then have "real_of_int (2 ^ 52) * 2 powi ey \<le> round64 y"
      unfolding ry by (intro mult_right_mono) simp_all
    then have lo: "(2::real) powi (52 + ey) \<le> round64 y"
      using two_powi_add[of 52 ey] by simp
    have "kx + 1 \<le> 53 + ex" by (simp add: ex_def)
    then have "(2::real) powi (kx + 1) \<le> 2 powi (53 + ex)" by (simp only: two_powi_le_iff)
    then have "x < 2 powi (53 + ex)" using bx by linarith
    then have "x < 2 powi 53 * 2 powi ex" using two_powi_add[of 53 ex] by simp
    then have "x / 2 powi ex \<le> 2 powi 53" by (simp add: pos_divide_le_eq)
    then have "x / 2 powi ex \<le> real_of_int (2 ^ 53)" by simp
    then have "round_even (x / 2 powi ex) \<le> round_even (real_of_int (2 ^ 53))"
      by (rule round_even_mono)
    then have "round_even (x / 2 powi ex) \<le> 2 ^ 53" by (simp only: round_even_of_int)
    then have "real_of_int (round_even (x / 2 powi ex)) \<le> real_of_int (2 ^ 53)"
      by (simp only: of_int_le_iff)
    then have "round64 x \<le> real_of_int (2 ^ 53) * 2 powi ex"
      unfolding rx by (intro mult_right_mono) simp_all
    then have "round64 x \<le> 2 powi (53 + ex)" using two_powi_add[of 53 ex] by simp
    also have "\<dots> \<le> 2 powi (52 + ey)"
    proof -
      have "53 + ex \<le> 52 + ey" using lt by linarith
      then show ?thesis by (simp only: two_powi_le_iff)
    qed
    finally show ?thesis using lo by linarith
  qed
qed

lemma round64_mono:
  assumes "x \<le> y"
  shows "round64 x \<le> round64 y"
proof (cases "0 < x")
  case True
  then show ?thesis using assms by (rule round64_mono_pos)
next
  case False
  then have x0: "x \<le> 0" by simp
  show ?thesis
  proof (cases "0 \<le> y")
    case True
    then show ?thesis using round64_nonpos[OF x0] round64_nonneg[OF True] by linarith
  next
    case False
    then have "0 < - y" "- y \<le> - x" using assms by simp_all
    then have "round64 (- y) \<le> round64 (- x)" by (rule round64_mono_pos)
    then show ?thesis by (simp add: round64_minus)
  qed
qed

text \<open>Integers up to \<open>2\<close> to the \<open>53\<close> are binary64 values.\<close>

lemma round64_numeral:
  "(numeral w :: int) \<le> 2 ^ 53 \<Longrightarrow> round64 (numeral w) = numeral w"
  using round64_of_int[of "numeral w"] by simp

lemma round64_1 [simp]: "round64 1 = 1"
  using round64_of_int[of 1] by simp

lemma round64_of_nat: "n \<le> 2 ^ 53 \<Longrightarrow> round64 (real n) = real n"
  using round64_of_int[of "int n"] by simp

lemma round64_between:
  assumes "real_of_int a \<le> x" and "x \<le> real_of_int b"
    and "\<bar>a\<bar> \<le> 2 ^ 53" and "\<bar>b\<bar> \<le> 2 ^ 53"
  shows "real_of_int a \<le> round64 x \<and> round64 x \<le> real_of_int b"
  using round64_mono[OF assms(1)] round64_mono[OF assms(2)]
        round64_of_int[OF assms(3)] round64_of_int[OF assms(4)]
  by simp

section \<open>Statistics\<close>

text \<open>
  Claim C6. The mean and the standard deviation of the empty list are 0, and the z-score
  of any value against any mean is 0 when the standard deviation is 0: the guard returns
  before the division.
\<close>

theorem statistics_edge_cases:
  "mean [] = 0 \<and> standardDeviation [] = 0 \<and> zScore x m 0 = 0"
  by (simp add: mean_def standardDeviation_def zScore_def)

text \<open>
  Claim C7. With fewer than five historical amounts \<^verbatim>\<open>detectAmountAnomaly\<close> returns, for
  any candidate amount and any threshold, the fixed result that is no anomaly and has
  type \<^verbatim>\<open>insufficient_data\<close>. The function is total: no input makes it throw.
\<close>

theorem detectAmountAnomaly_insufficient_data:
  assumes "length historicalAmounts < 5"
  shows "detectAmountAnomaly toFixed amount' historicalAmounts threshold =
           \<lparr>isAnomaly = False, type = ''insufficient_data'', severity = Low,
            description = ''Not enough historical data for analysis''\<rparr>"
  using assms by (simp add: detectAmountAnomaly_def)

theorem detectAmountAnomaly_insufficient_data_witness:
  "length [120, 80, 95 :: real] < 5
   \<and> isAnomaly (detectAmountAnomaly sample_toFixed 100000 [120, 80, 95] 2.5) = False
   \<and> type (detectAmountAnomaly sample_toFixed 100000 [120, 80, 95] 2.5) = ''insufficient_data''"
  using detectAmountAnomaly_insufficient_data [of "[120, 80, 95]" sample_toFixed 100000 "2.5"]
  by simp

section \<open>Percentiles\<close>

text \<open>The quotients and products of the examples, rounded.\<close>

lemma round64_exact:
  assumes "- 1074 \<le> e" and "2 powi (52 + e) \<le> \<bar>x\<bar>" and "\<bar>x\<bar> < 2 powi (53 + e)"
    and "x / 2 powi e = of_int m"
  shows "round64 x = x"
proof -
  have "round64 x = of_int (round_even (x / 2 powi e)) * 2 powi e"
    using assms(1-3) by (rule round64_scaled)
  also have "\<dots> = x / 2 powi e * 2 powi e" by (simp only: assms(4) round_even_of_int)
  also have "\<dots> = x" by simp
  finally show ?thesis .
qed

lemma round64_half: "round64 (1 / 2) = 1 / 2"
  by (rule round64_exact[where e = "- 53" and m = "2 ^ 52"]) (simp_all add: power_int_minus)

lemma round64_3_2: "round64 (3 / 2) = 3 / 2"
  by (rule round64_exact[where e = "- 52" and m = "3 * 2 ^ 51"]) (simp_all add: power_int_minus)

lemma round64_9_10: "round64 (9 / 10) = 8106479329266893 / 2 ^ 53"
proof -
  have "round64 (9 / 10) = of_int (round_even ((9 / 10) / 2 powi (- 53))) * 2 powi (- 53)"
    by (rule round64_scaled) (simp_all add: power_int_minus)
  also have "round_even ((9 / 10) / 2 powi (- 53)) = 8106479329266893"
    by (simp add: round_even_def power_int_minus Let_def)
  finally show ?thesis by (simp add: power_int_minus)
qed

lemma round64_9_10_times_10: "round64 (40532396646334465 / 4503599627370496) = 9"
proof -
  let ?x = "40532396646334465 / 4503599627370496 :: real"
  have "round64 ?x = of_int (round_even (?x / 2 powi (- 49))) * 2 powi (- 49)"
    by (rule round64_scaled) (simp_all add: power_int_minus)
  also have "round_even (?x / 2 powi (- 49)) = 5066549580791808"
    by (simp add: round_even_def power_int_minus Let_def)
  finally show ?thesis by (simp add: power_int_minus)
qed

lemma round64_7_25: "round64 (7 / 25) = 5044031582654956 / 2 ^ 54"
proof -
  have "round64 (7 / 25) = of_int (round_even ((7 / 25) / 2 powi (- 54))) * 2 powi (- 54)"
    by (rule round64_scaled) (simp_all add: power_int_minus)
  also have "round_even ((7 / 25) / 2 powi (- 54)) = 5044031582654956"
    by (simp add: round_even_def power_int_minus Let_def)
  finally show ?thesis by (simp add: power_int_minus)
qed

lemma round64_7_25_times_25:
  "round64 (31525197391593475 / 4503599627370496) = 7881299347898369 / 2 ^ 50"
proof -
  let ?x = "31525197391593475 / 4503599627370496 :: real"
  have "round64 ?x = of_int (round_even (?x / 2 powi (- 50))) * 2 powi (- 50)"
    by (rule round64_scaled) (simp_all add: power_int_minus)
  also have "round_even (?x / 2 powi (- 50)) = 7881299347898369"
    by (simp add: round_even_def power_int_minus Let_def)
  finally show ?thesis by (simp add: power_int_minus)
qed

lemma percentile_90_of_ten:
  "length xs = 10 \<Longrightarrow> percentile xs 90 = Some (xs ! 8)"
  by (simp add: percentile_def Let_def round64_9_10 round64_9_10_times_10)

lemma percentile_index_le:
  assumes n: "length xs < 2 ^ 32" and p: "p \<le> 100"
  shows "\<lceil>round64 (round64 (p / 100) * real (length xs))\<rceil> \<le> int (length xs)"
proof -
  have "p / 100 \<le> 1" using p by simp
  then have "round64 (p / 100) \<le> round64 1" by (rule round64_mono)
  then have "round64 (p / 100) \<le> 1" by simp
  then have "round64 (p / 100) * real (length xs) \<le> 1 * real (length xs)"
    by (intro mult_right_mono) simp_all
  then have "round64 (round64 (p / 100) * real (length xs)) \<le> round64 (real (length xs))"
    by (intro round64_mono) simp
  moreover have "length xs \<le> 2 ^ 53"
  proof -
    have "(2::nat) ^ 32 \<le> 2 ^ 53" by simp
    then show ?thesis using n by linarith
  qed
  ultimately have "round64 (round64 (p / 100) * real (length xs)) \<le> real (length xs)"
    by (simp add: round64_of_nat)
  then show ?thesis by (simp add: ceiling_le_iff)
qed

text \<open>
  Claim C4, as stated, does not hold. The quotient \<open>p / 100\<close> and its product with \<open>n\<close>
  are rounded: for the 25 numbers 1, ..., 25 and \<open>p = 28\<close> the rounded product is just
  above 7, so that \<^verbatim>\<open>percentile\<close> returns the element 8 at index 7, while
  \<open>ceil(p / 100 * n) - 1\<close> is 6, the index of the element 7. And for \<open>p\<close> above 100
  the index can pass the end of the array: \<^verbatim>\<open>percentile([10], 200)\<close> is \<^verbatim>\<open>undefined\<close>.
\<close>

theorem percentile_other_rank_counterexample:
  "percentile sample_ranks 28 = Some 8
   \<and> sample_ranks ! nat (max 0 (\<lceil>28 / 100 * real (length sample_ranks)\<rceil> - 1)) = 7
   \<and> percentile [10] 200 = None"
  by (simp add: percentile_def Let_def sample_ranks_def round64_7_25 round64_7_25_times_25
        round64_numeral)

text \<open>
  Claim C4, amended. For a non-empty list of \<open>n\<close> numbers (sorted or not; a JavaScript
  array has fewer than \<open>2\<close> to the \<open>32\<close> elements) and a percentile \<open>p\<close> of at most
  100, \<^verbatim>\<open>percentile\<close> returns the element at index \<open>ceil(fl(fl(p / 100) * n)) - 1\<close>,
  clamped to at least 0, where \<open>fl\<close> rounds to the nearest binary64 value, and that
  index lies inside the list; nothing is interpolated. The percentile 90 of
  10, 20, ..., 100 is 90.
\<close>

theorem percentile_nearest_rank:
  "(\<forall>sortedValues p. sortedValues \<noteq> [] \<and> length sortedValues < 2 ^ 32 \<and> p \<le> 100 \<longrightarrow>
      nat (max 0 (\<lceil>round64 (round64 (p / 100) * real (length sortedValues))\<rceil> - 1))
        < length sortedValues
      \<and> percentile sortedValues p =
          Some (sortedValues !
                  nat (max 0 (\<lceil>round64 (round64 (p / 100) * real (length sortedValues))\<rceil> - 1))))
   \<and> percentile [10, 20, 30, 40, 50, 60, 70, 80, 90, 100] 90 = Some 90"
proof (intro conjI allI impI)
  fix sortedValues :: "number list" and p :: number
  assume a: "sortedValues \<noteq> [] \<and> length sortedValues < 2 ^ 32 \<and> p \<le> 100"
  have c: "\<lceil>round64 (round64 (p / 100) * real (length sortedValues))\<rceil>
             \<le> int (length sortedValues)"
    using a by (intro percentile_index_le) simp_all
  have n: "0 < length sortedValues" using a by simp
  show "nat (max 0 (\<lceil>round64 (round64 (p / 100) * real (length sortedValues))\<rceil> - 1))
          < length sortedValues"
    using c n by linarith
  show "percentile sortedValues p =
          Some (sortedValues !
                  nat (max 0 (\<lceil>round64 (round64 (p / 100) * real (length sortedValues))\<rceil> - 1)))"
    using c a by (simp add: percentile_def Let_def)
next
  show "percentile [10, 20, 30, 40, 50, 60, 70, 80, 90, 100] 90 = Some 90"
    by (simp add: percentile_90_of_ten)
qed

theorem percentile_nearest_rank_witness:
  "[5, 7, 9 :: real] \<noteq> [] \<and> length [5, 7, 9 :: real] < 2 ^ 32 \<and> (50 :: real) \<le> 100
   \<and> nat (max 0 (\<lceil>round64 (round64 ((50 :: real) / 100) * real (length [5, 7, 9 :: real]))\<rceil> - 1)) = 1
   \<and> percentile [5, 7, 9] 50 = Some 7"
proof -
  have i: "nat (max 0 (\<lceil>round64 (round64 ((50 :: real) / 100) * real (length [5, 7, 9 :: real]))\<rceil> - 1)) = 1"
    by (simp add: round64_half round64_3_2)
  have h: "[5, 7, 9 :: real] \<noteq> [] \<and> length [5, 7, 9 :: real] < 2 ^ 32 \<and> (50 :: real) \<le> 100"
    by simp
  note general = percentile_nearest_rank [THEN conjunct1, rule_format, of "[5, 7, 9]" 50]
  have "percentile [5, 7, 9] 50 =
          Some ([5, 7, 9] ! nat (max 0 (\<lceil>round64 (round64 ((50 :: real) / 100) * real (length [5, 7, 9 :: real]))\<rceil> - 1)))"
    using general [OF h] by (rule conjunct2)
  then have "percentile [5, 7, 9] 50 = Some ([5, 7, 9] ! 1)"
    by (simp only: i)
  then have "percentile [5, 7, 9] 50 = Some 7" by simp
  then show ?thesis using i h by (intro conjI) simp_all
qed

section \<open>The boundary example\<close>

lemma sqrt_729: "sqrt 729 = (27::real)"
  by (rule real_sqrt_unique) simp_all

lemma round64_ge:
  "real_of_int a \<le> x \<Longrightarrow> \<bar>a\<bar> \<le> 2 ^ 53 \<Longrightarrow> real_of_int a \<le> round64 x"
  using round64_mono[of "real_of_int a" x] round64_of_int[of a] by simp

lemma round64_le:
  "x \<le> real_of_int b \<Longrightarrow> \<bar>b\<bar> \<le> 2 ^ 53 \<Longrightarrow> round64 x \<le> real_of_int b"
  using round64_mono[of x "real_of_int b"] round64_of_int[of b] by simp

lemma foldl_round64_nonneg:
  "0 \<le> a \<Longrightarrow> \<forall>x\<in>set xs. 0 \<le> x \<Longrightarrow> 0 \<le> foldl (\<lambda>sum val. round64 (sum + val)) a xs"
proof (induction xs arbitrary: a)
  case Nil
  then show ?case by simp
next
  case (Cons x xs)
  have "0 \<le> round64 (a + x)" using Cons.prems by (intro round64_nonneg) simp
  then show ?case using Cons.IH[of "round64 (a + x)"] Cons.prems by simp
qed

lemma foldl_round64_replicate:
  "a + k * c \<le> 2 ^ 53 \<Longrightarrow>
   foldl (\<lambda>sum val. round64 (sum + val)) (real a) (replicate k (real c)) = real (a + k * c)"
proof (induction k arbitrary: a)
  case 0
  then show ?case by simp
next
  case (Suc k)
  have le: "a + c \<le> 2 ^ 53" using Suc.prems by simp
  have "round64 (real a + real c) = real (a + c)"
    using round64_of_nat[OF le] by simp
  moreover have "a + c + k * c \<le> 2 ^ 53" using Suc.prems by (simp add: algebra_simps)
  ultimately show ?case using Suc.IH[of "a + c"] by (simp add: algebra_simps)
qed

lemma mean_tens: "0 < k \<Longrightarrow> k \<le> 9 \<Longrightarrow> mean (replicate k 10) = 10"
proof -
  assume k: "0 < k" "k \<le> 9"
  have "foldl (\<lambda>sum val. round64 (sum + val)) (real 0) (replicate k (real 10)) = real (0 + k * 10)"
    using k by (intro foldl_round64_replicate) simp
  then have "foldl (\<lambda>sum val. round64 (sum + val)) 0 (replicate k 10) = real k * 10"
    by simp
  then show ?thesis using k by (simp add: mean_def round64_numeral)
qed

lemma foldl_round64_zeros: "foldl (\<lambda>sum val. round64 (sum + val)) 0 (replicate k 0) = 0"
  by (induction k) simp_all

lemma mean_zeros: "mean (replicate k 0) = 0"
  by (simp add: mean_def foldl_round64_zeros)

lemma standardDeviation_tens:
  assumes "0 < k" and "k \<le> 9"
  shows "standardDeviation (replicate k 10) = 0"
  using assms by (simp add: standardDeviation_def Let_def mean_tens mean_zeros)

lemma zScore_with_outlier:
  assumes k4: "4 \<le> k" and k9: "k \<le> 9"
  shows "\<bar>zScore 10 (mean (replicate k 10 @ [100]))
            (standardDeviation (replicate k 10 @ [100]))\<bar> \<le> 1"
proof -
  let ?add = "\<lambda>sum val. round64 (sum + val) :: real"
  let ?cs = "replicate k 10 @ [100] :: real list"
  define m where "m = mean ?cs"
  define d where "d = round64 (10 - m)"
  define D where "D = round64 (100 - m)"
  define q where "q = round64 (d ^ 2)"
  define Q where "Q = round64 (D ^ 2)"
  define A where "A = foldl ?add 0 (replicate k q)"
  define M where "M = round64 (round64 (A + Q) / real (Suc k))"
  define s where "s = round64 (sqrt M)"
  have "foldl ?add (real 0) (replicate k (real 10)) = real (0 + k * 10)"
    using k9 by (intro foldl_round64_replicate) simp
  then have tens: "foldl ?add 0 (replicate k 10) = real k * 10" by simp
  have "k * 10 + 100 \<le> (2::nat) ^ 53" using k9 by simp
  then have "round64 (real (k * 10 + 100)) = real (k * 10 + 100)" by (rule round64_of_nat)
  then have sum: "round64 (real k * 10 + 100) = real k * 10 + 100" by simp
  have m_eq: "m = round64 ((real k * 10 + 100) / real (Suc k))"
    by (simp add: m_def mean_def tens sum)
  have "19 \<le> (real k * 10 + 100) / real (Suc k)"
    using k9 by (simp add: pos_le_divide_eq)
  moreover have "(real k * 10 + 100) / real (Suc k) \<le> 28"
    using k4 by (simp add: pos_divide_le_eq)
  ultimately have m: "19 \<le> m" "m \<le> 28"
    using round64_ge[of 19 "(real k * 10 + 100) / real (Suc k)"]
          round64_le[of "(real k * 10 + 100) / real (Suc k)" 28]
    by (simp_all add: m_eq)
  have d: "- 18 \<le> d" "d \<le> - 9"
    using round64_ge[of "- 18" "10 - m"] round64_le[of "10 - m" "- 9"] m
    by (simp_all add: d_def)
  have D: "72 \<le> D"
    using round64_ge[of 72 "100 - m"] m by (simp add: D_def)
  have q: "0 \<le> q" by (simp add: q_def round64_nonneg)
  have "72 ^ 2 \<le> D ^ 2" using D by (intro power_mono) simp_all
  then have "real_of_int 5184 \<le> D ^ 2" by simp
  then have "real_of_int 5184 \<le> round64 (D ^ 2)" by (rule round64_ge) simp
  then have Q: "5184 \<le> Q" by (simp add: Q_def)
  have A: "0 \<le> A" unfolding A_def using q by (intro foldl_round64_nonneg) simp_all
  have "real_of_int 5184 \<le> A + Q" using A Q by simp
  then have "real_of_int 5184 \<le> round64 (A + Q)" by (rule round64_ge) simp
  then have "5184 \<le> round64 (A + Q)" by simp
  moreover have "518 * real (Suc k) \<le> 518 * 10"
    using k9 by (intro mult_left_mono) simp_all
  ultimately have "518 * real (Suc k) \<le> round64 (A + Q)" by simp
  then have "real_of_int 518 \<le> round64 (A + Q) / real (Suc k)"
    by (simp add: pos_le_divide_eq)
  then have "real_of_int 518 \<le> round64 (round64 (A + Q) / real (Suc k))"
    by (rule round64_ge) simp
  then have M: "518 \<le> M" by (simp add: M_def)
  have "(22::real) ^ 2 \<le> M" using M by simp
  then have "22 \<le> sqrt M" by (rule real_le_rsqrt)
  then have "real_of_int 22 \<le> sqrt M" by simp
  then have "real_of_int 22 \<le> round64 (sqrt M)" by (rule round64_ge) simp
  then have s: "22 \<le> s" by (simp add: s_def)
  have squares: "map (\<lambda>value. round64 ((round64 (value - m)) ^ 2)) ?cs = replicate k q @ [Q]"
    by (simp add: q_def d_def Q_def D_def)
  have mean_squares: "mean (replicate k q @ [Q]) = M"
    by (simp add: mean_def M_def A_def)
  have "standardDeviation ?cs =
          round64 (sqrt (mean (map (\<lambda>value. round64 ((round64 (value - m)) ^ 2)) ?cs)))"
    unfolding standardDeviation_def Let_def m_def by simp
  also have "\<dots> = s" by (simp only: squares mean_squares s_def)
  finally have sd: "standardDeviation ?cs = s" .
  have z: "zScore 10 m s = round64 (d / s)" using s by (simp add: zScore_def d_def)
  have "- 1 \<le> d / s" using d s by (simp add: pos_le_divide_eq)
  moreover have "d / s \<le> 0" using d s by (simp add: divide_le_0_iff)
  ultimately have "- 1 \<le> round64 (d / s)" "round64 (d / s) \<le> 0"
    using round64_ge[of "- 1" "d / s"] round64_le[of "d / s" 0] by simp_all
  then have "\<bar>zScore 10 m s\<bar> \<le> 1" by (simp add: z)
  then show ?thesis by (simp only: sd m_def)
qed

lemma map_filter_tail:
  "map f xs = replicate n a @ [b] \<Longrightarrow>
   \<exists>k\<le>n. map f (filter P xs) = replicate k a \<or> map f (filter P xs) = replicate k a @ [b]"
proof (induction xs arbitrary: n)
  case Nil
  then show ?case by simp
next
  case (Cons x xs)
  show ?case
  proof (cases n)
    case 0
    then have "xs = []" using Cons.prems by simp
    then have "map f (filter P (x # xs)) = replicate 0 a
               \<or> map f (filter P (x # xs)) = replicate 0 a @ [b]"
      using Cons.prems 0 by simp
    then show ?thesis by blast
  next
    case (Suc n')
    then have x: "f x = a" and xs: "map f xs = replicate n' a @ [b]"
      using Cons.prems by simp_all
    obtain k where k: "k \<le> n'"
      "map f (filter P xs) = replicate k a \<or> map f (filter P xs) = replicate k a @ [b]"
      using Cons.IH[OF xs] by blast
    show ?thesis
    proof (cases "P x")
      case True
      then have "map f (filter P (x # xs)) = replicate (Suc k) a
                 \<or> map f (filter P (x # xs)) = replicate (Suc k) a @ [b]"
        using k(2) x by auto
      moreover have "Suc k \<le> n" using k(1) Suc by simp
      ultimately show ?thesis by blast
    next
      case False
      then have "map f (filter P (x # xs)) = replicate k a
                 \<or> map f (filter P (x # xs)) = replicate k a @ [b]"
        using k(2) by simp
      moreover have "k \<le> n" using k(1) Suc by simp
      ultimately show ?thesis by blast
    qed
  qed
qed

lemma category_rule_quiet:
  fixes hs :: "'b historical_scheme list"
  assumes hs: "map amount hs = [10, 10, 10, 10, 10, 10, 10, 10, 10, 100]"
    and len: "5 \<le> length (filter P hs)"
  shows "\<not> isAnomaly (detectAmountAnomaly toFixed 10 (map amount (filter P hs)) 2.0)"
proof -
  let ?cs = "map amount (filter P hs)"
  have "map amount hs = replicate 9 10 @ [100]"
    by (simp add: hs numeral_eq_Suc)
  then obtain k where k: "k \<le> 9" "?cs = replicate k 10 \<or> ?cs = replicate k 10 @ [100]"
    using map_filter_tail[of amount hs 9 10 100 P] by blast
  have l5: "5 \<le> length ?cs" using len by simp
  from k(2) have "\<bar>zScore 10 (mean ?cs) (standardDeviation ?cs)\<bar> \<le> 1"
  proof
    assume c: "?cs = replicate k 10"
    then have "0 < k" using l5 by simp
    then show ?thesis using k(1) by (simp add: c mean_tens standardDeviation_tens zScore_def)
  next
    assume c: "?cs = replicate k 10 @ [100]"
    then have "4 \<le> k" using l5 by simp
    then show ?thesis using k(1) by (simp only: c zScore_with_outlier)
  qed
  then show ?thesis using l5 by (simp add: detectAmountAnomaly_def Let_def)
qed

lemma mean_boundary: "mean [10, 10, 10, 10, 10, 10, 10, 10, 10, 100] = 19"
  by (simp add: mean_def round64_numeral)

lemma standardDeviation_boundary:
  "standardDeviation [10, 10, 10, 10, 10, 10, 10, 10, 10, 100] = 27"
  by (simp add: standardDeviation_def mean_def round64_numeral round64_minus sqrt_729)

lemma zScore_10_boundary: "\<bar>zScore 10 19 27\<bar> \<le> 1"
proof -
  have "zScore 10 19 27 = round64 (- 9 / 27)"
    by (simp add: zScore_def round64_numeral round64_minus)
  moreover have "real_of_int (- 1) \<le> round64 (- 9 / 27)" by (rule round64_ge) simp_all
  moreover have "round64 (- 9 / 27) \<le> real_of_int 0" by (rule round64_le) simp_all
  ultimately show ?thesis by simp
qed

lemma zScore_500_boundary: "17 \<le> zScore 500 19 27"
proof -
  have "zScore 500 19 27 = round64 (481 / 27)"
    by (simp add: zScore_def round64_numeral)
  moreover have "real_of_int 17 \<le> round64 (481 / 27)" by (rule round64_ge) simp_all
  ultimately show ?thesis by simp
qed


text \<open>
  Claim C3. The historical amounts 10 (nine times) and 100 have mean 19 and population
  standard deviation 27. Against them \<^verbatim>\<open>detectAmountAnomaly\<close> with threshold 2.5 does not
  flag the amount 10 and flags the amount 500 with severity high. For any history with
  these amounts, whatever its categories and dates, and any category of the candidate,
  \<^verbatim>\<open>analyzeTransaction\<close> returns no finding for the amount 10, and for the amount 500 a
  list that starts with the finding of type \<^verbatim>\<open>unusual_amount\<close>, whose severity is high,
  hence at least medium.
\<close>

theorem anomaly_boundary:
  fixes historicalTransactions :: "'b historical_scheme list"
    and newTransaction :: "'a amount_category_scheme"
  assumes hs: "map amount historicalTransactions = [10, 10, 10, 10, 10, 10, 10, 10, 10, 100]"
  shows "mean (map amount historicalTransactions) = 19
       \<and> standardDeviation (map amount historicalTransactions) = 27
       \<and> \<not> isAnomaly (detectAmountAnomaly toFixed 10 (map amount historicalTransactions) 2.5)
       \<and> isAnomaly (detectAmountAnomaly toFixed 500 (map amount historicalTransactions) 2.5)
       \<and> severity (detectAmountAnomaly toFixed 500 (map amount historicalTransactions) 2.5) = High
       \<and> (amount newTransaction = 10 \<longrightarrow>
            analyzeTransaction toFixed newTransaction historicalTransactions = [])
       \<and> (amount newTransaction = 500 \<longrightarrow>
            (\<exists>r rest. analyzeTransaction toFixed newTransaction historicalTransactions = r # rest
                \<and> isAnomaly r \<and> type r = ''unusual_amount''
                \<and> severity r \<noteq> Low \<and> severity r = High))"
proof -
  let ?hs = historicalTransactions and ?new = newTransaction
  note m = mean_boundary and s = standardDeviation_boundary
  have p: "percentile [10, 10, 10, 10, 10, 10, 10, 10, 10, 100] 90 = Some 10"
    by (simp add: percentile_90_of_ten)
  have len: "length ?hs = 10" using arg_cong[OF hs, of length] by simp
  have a1: "\<not> isAnomaly (detectAmountAnomaly toFixed 10 (map amount ?hs) 2.5)"
    using zScore_10_boundary by (simp add: hs detectAmountAnomaly_def Let_def m s)
  have a2: "\<not> isAnomaly (detectLargeTransaction toFixed 10 10)"
    by (simp add: detectLargeTransaction_def round64_numeral)
  let ?r = "detectAmountAnomaly toFixed 500 (map amount ?hs) 2.5"
  have r: "isAnomaly ?r \<and> type ?r = ''unusual_amount'' \<and> severity ?r = High"
    using zScore_500_boundary by (simp add: hs detectAmountAnomaly_def Let_def m s)
  have ten: "amount ?new = 10 \<longrightarrow> analyzeTransaction toFixed ?new ?hs = []"
  proof
    assume a: "amount ?new = 10"
    show "analyzeTransaction toFixed ?new ?hs = []"
      using a1 a2 category_rule_quiet[OF hs]
      by (simp add: analyzeTransaction_def Let_def a len hs p)
  qed
  have big: "amount ?new = 500 \<longrightarrow>
            (\<exists>r rest. analyzeTransaction toFixed ?new ?hs = r # rest
                \<and> isAnomaly r \<and> type r = ''unusual_amount''
                \<and> severity r \<noteq> Low \<and> severity r = High)"
  proof
    assume a: "amount ?new = 500"
    from r show "\<exists>r rest. analyzeTransaction toFixed ?new ?hs = r # rest
                \<and> isAnomaly r \<and> type r = ''unusual_amount''
                \<and> severity r \<noteq> Low \<and> severity r = High"
      by (simp add: analyzeTransaction_def Let_def a split: option.splits)
  qed
  show ?thesis using m s a1 r ten big by (simp only: hs simp_thms)
qed

theorem anomaly_boundary_witness:
  "map amount sample_history = [10, 10, 10, 10, 10, 10, 10, 10, 10, 100]
   \<and> analyzeTransaction sample_toFixed \<lparr>amount = 10, category = Some ''Food''\<rparr> sample_history = []
   \<and> (\<exists>r rest. analyzeTransaction sample_toFixed \<lparr>amount = 500, category = Some ''Food''\<rparr>
                   sample_history = r # rest
         \<and> isAnomaly r \<and> type r = ''unusual_amount'' \<and> severity r \<noteq> Low \<and> severity r = High)"
proof -
  have h: "map amount sample_history = [10, 10, 10, 10, 10, 10, 10, 10, 10, 100]"
    by (simp add: sample_history_def)
  note ten = anomaly_boundary [OF h, of sample_toFixed "\<lparr>amount = 10, category = Some ''Food''\<rparr>"]
  note big = anomaly_boundary [OF h, of sample_toFixed "\<lparr>amount = 500, category = Some ''Food''\<rparr>"]
  have "analyzeTransaction sample_toFixed \<lparr>amount = 10, category = Some ''Food''\<rparr> sample_history = []"
    using ten by simp
  moreover have "\<exists>r rest. analyzeTransaction sample_toFixed \<lparr>amount = 500, category = Some ''Food''\<rparr>
                   sample_history = r # rest
         \<and> isAnomaly r \<and> type r = ''unusual_amount'' \<and> severity r \<noteq> Low \<and> severity r = High"
    using big by simp
  ultimately show ?thesis using h by (intro conjI)
qed

section \<open>Rounding at the threshold\<close>















































section \<open>Row identifiers\<close>

lemma fold_max_ge: "a \<le> fold max xs a" for a :: int
proof (induction xs arbitrary: a)
  case Nil
  show ?case by simp
next
  case (Cons y ys)
  have "a \<le> max y a" by simp
  also have "\<dots> \<le> fold max ys (max y a)" by (rule Cons.IH)
  finally show ?case by simp
qed

lemma fold_max_ge_elem: "x \<in> set xs \<Longrightarrow> x \<le> fold max xs a" for a :: int
proof (induction xs arbitrary: a)
  case Nil
  then show ?case by simp
next
  case (Cons y ys)
  show ?case
  proof (cases "x = y")
    case True
    have "y \<le> max y a" by simp
    also have "\<dots> \<le> fold max ys (max y a)" by (rule fold_max_ge)
    finally show ?thesis using True by simp
  next
    case False
    with Cons show ?thesis by simp
  qed
qed


lemma next_rowid_gt_seq: "anomalies_seq db < next_rowid db"
  using fold_max_ge[of "anomalies_seq db" "map a_id (anomalies db)"] by (simp add: next_rowid_def)

lemma next_rowid_gt_id: "a \<in> set (anomalies db) \<Longrightarrow> a_id a < next_rowid db"
  using fold_max_ge_elem[of "a_id a" "map a_id (anomalies db)" "anomalies_seq db"]
  by (simp add: next_rowid_def)


section \<open>Batch analysis\<close>












section \<open>Findings in the database\<close>

lemma acknowledged_update_same: "a_acknowledged a \<Longrightarrow> a\<lparr>a_acknowledged := True\<rparr> = a"
  by (cases a) simp

lemma anomalies_keyed_cong:
  "map a_id (anomalies db') = map a_id (anomalies db) \<Longrightarrow> anomalies_seq db' = anomalies_seq db
   \<Longrightarrow> anomalies_keyed db' = anomalies_keyed db"
  by (simp add: anomalies_keyed_def)

lemma settled_filter:
  assumes "settled a db" and "anomalies db' = filter P (anomalies db)"
    and "anomalies_seq db' = anomalies_seq db"
  shows "settled a db'"
  using assms by (auto simp: settled_def anomalies_keyed_def list_all_iff distinct_map_filter)

lemma delete_transactions_anomalies:
  "\<exists>P. anomalies (snd (delete_transactions cond db)) = filter P (anomalies db)
       \<and> anomalies_seq (snd (delete_transactions cond db)) = anomalies_seq db"
  by (auto simp: delete_transactions_def Let_def)

lemma delete_user_anomalies:
  "\<exists>P. anomalies (snd (delete_user userId db)) = filter P (anomalies db)
       \<and> anomalies_seq (snd (delete_user userId db)) = anomalies_seq db"
proof (cases "filter (\<lambda>u. u_id u = userId) (users db) = []")
  case True
  then have "snd (delete_user userId db) = db" by (simp add: delete_user_def)
  then have "anomalies (snd (delete_user userId db)) = filter (\<lambda>_. True) (anomalies db)
       \<and> anomalies_seq (snd (delete_user userId db)) = anomalies_seq db" by simp
  then show ?thesis by blast
next
  case False
  obtain n db1 where d: "delete_transactions (\<lambda>t. t_user_id t = userId) db = (n, db1)"
    by (cases "delete_transactions (\<lambda>t. t_user_id t = userId) db")
  obtain P where P: "anomalies db1 = filter P (anomalies db)"
    "anomalies_seq db1 = anomalies_seq db"
    using delete_transactions_anomalies[of "\<lambda>t. t_user_id t = userId" db] d by auto
  have "anomalies (snd (delete_user userId db))
          = filter (\<lambda>a. a_user_id a \<noteq> userId \<and> P a) (anomalies db)
       \<and> anomalies_seq (snd (delete_user userId db)) = anomalies_seq db"
    using False P d by (simp add: delete_user_def Let_def conj_commute)
  then show ?thesis by blast
qed

lemma settled_create:
  assumes "settled a db" and "AnomalyModel_create clock data db = (r, db')"
  shows "settled a db'"
proof (cases "db' = db")
  case True
  with assms show ?thesis by simp
next
  case False
  then obtain row where
    db': "db' = db\<lparr>anomalies := anomalies db @ [row], anomalies_seq := next_rowid db\<rparr>"
    and row: "a_id row = next_rowid db"
    using assms(2) by (auto simp: AnomalyModel_create_def Let_def split: if_splits)
  have fresh: "\<forall>x\<in>set (anomalies db). a_id x < a_id row"
    using next_rowid_gt_id row by simp
  have "a_id a < a_id row" using assms(1) next_rowid_gt_seq[of db] row by (simp add: settled_def)
  then show ?thesis
    using assms(1) fresh next_rowid_gt_seq[of db] row
    by (auto simp: settled_def anomalies_keyed_def list_all_iff db')
qed

lemma settled_acknowledge:
  assumes "settled a db" and "a_acknowledged a" and "AnomalyModel_acknowledge i db = (b, db')"
  shows "settled a db'"
proof -
  let ?f = "\<lambda>x. if a_id x = i then x\<lparr>a_acknowledged := True\<rparr> else x"
  have db': "db' = db\<lparr>anomalies := map ?f (anomalies db)\<rparr>"
    using assms(3) by (auto simp: AnomalyModel_acknowledge_def Let_def)
  have ids: "map a_id (map ?f (anomalies db)) = map a_id (anomalies db)"
    by (induction "anomalies db") auto
  have idf: "\<And>x. a_id (?f x) = a_id x" by simp
  have fa: "?f a = a" using acknowledged_update_same[OF assms(2)] by simp
  have "\<forall>a'\<in>set (map ?f (anomalies db)). a_id a' = a_id a \<longrightarrow> a' = a"
  proof
    fix a' assume "a' \<in> set (map ?f (anomalies db))"
    then obtain x where x: "x \<in> set (anomalies db)" "a' = ?f x" by auto
    show "a_id a' = a_id a \<longrightarrow> a' = a"
    proof
      assume "a_id a' = a_id a"
      then have "a_id x = a_id a" using x(2) idf[of x] by simp
      then have "x = a" using assms(1) x(1) by (simp add: settled_def)
      then have "a' = ?f a" using x(2) by (simp only:)
      then show "a' = a" by (simp only: fa)
    qed
  qed
  moreover have "anomalies_keyed db'"
  proof -
    have "anomalies_keyed db" using assms(1) by (simp add: settled_def)
    moreover have "map a_id (anomalies db') = map a_id (anomalies db)"
      using ids by (simp add: db')
    moreover have "anomalies_seq db' = anomalies_seq db" by (simp add: db')
    ultimately show ?thesis using anomalies_keyed_cong[of db' db] by simp
  qed
  ultimately show ?thesis using assms(1) by (simp add: settled_def db')
qed

lemma settled_step:
  assumes "db_step db db'" and "settled a db" and "a_acknowledged a"
  shows "settled a db'"
  using assms
proof (cases rule: db_step.cases)
  case (step_create clock data r)
  then show ?thesis using assms(2) settled_create by blast
next
  case (step_acknowledge id' b)
  then show ?thesis using assms(2,3) settled_acknowledge by blast
next
  case (step_delete id' b)
  then have "anomalies db' = filter (\<lambda>a. a_id a \<noteq> id') (anomalies db)"
    and "anomalies_seq db' = anomalies_seq db"
    by (auto simp: AnomalyModel_delete_def Let_def)
  then show ?thesis using assms(2) settled_filter by blast
next
  case (step_delete_transaction id' b)
  then have "db' = snd (delete_transactions (\<lambda>t. t_id t = id') db)"
    by (auto simp: TransactionModel_delete_def split: prod.splits)
  then show ?thesis
    using delete_transactions_anomalies[of "\<lambda>t. t_id t = id'" db] assms(2) settled_filter
    by blast
next
  case (step_delete_transactions_of userId n)
  then have "db' = snd (delete_transactions (\<lambda>t. t_user_id t = userId) db)"
    by (simp add: TransactionModel_deleteByUserId_def)
  then show ?thesis
    using delete_transactions_anomalies[of "\<lambda>t. t_user_id t = userId" db] assms(2) settled_filter
    by blast
next
  case (step_delete_user userId n)
  then have "db' = snd (delete_user userId db)" by simp
  then show ?thesis using delete_user_anomalies[of userId db] assms(2) settled_filter by blast
next
  case step_other_tables
  then show ?thesis using assms(2) by (simp add: settled_def anomalies_keyed_def)
qed

lemma settled_steps:
  assumes "db_step\<^sup>*\<^sup>* db db'" and "settled a db" and "a_acknowledged a"
  shows "settled a db'"
  using assms by (induction rule: rtranclp_induct) (auto intro: settled_step)

lemma keyed_settled:
  assumes "anomalies_keyed db" and "a \<in> set (anomalies db)"
  shows "settled a db"
proof -
  have inj: "inj_on a_id (set (anomalies db))"
    using assms(1) by (simp add: anomalies_keyed_def distinct_map)
  have "\<forall>a'\<in>set (anomalies db). a_id a' = a_id a \<longrightarrow> a' = a"
    using inj assms(2) by (auto dest: inj_onD)
  moreover have "a_id a \<le> anomalies_seq db"
    using assms by (auto simp: anomalies_keyed_def list_all_iff)
  ultimately show ?thesis using assms(1) by (simp add: settled_def)
qed

text \<open>
  Claim C8. In a database whose \<^verbatim>\<open>anomalies\<close> table respects its primary key and
  sequence, acknowledging a finding that is already acknowledged succeeds (the call
  returns true) and leaves the whole database, so every field of the finding, as it was.
  From then on, through any sequence of calls of the functions that write the tables,
  every row with the id of that finding is the finding unchanged: still acknowledged,
  with the same \<^verbatim>\<open>detected_at\<close>, \<^verbatim>\<open>anomaly_type\<close> and other fields. No call sets
  \<^verbatim>\<open>acknowledged\<close> back to false.
\<close>

theorem acknowledge_idempotent_one_way:
  assumes "anomalies_keyed db" and "a \<in> set (anomalies db)" and "a_acknowledged a"
  shows "AnomalyModel_acknowledge (a_id a) db = (True, db)
         \<and> (\<forall>db' a'. db_step\<^sup>*\<^sup>* db db' \<and> a' \<in> set (anomalies db') \<and> a_id a' = a_id a
                \<longrightarrow> a' = a)"
proof
  have st: "settled a db" using assms(1,2) by (rule keyed_settled)
  let ?f = "\<lambda>x. if a_id x = a_id a then x\<lparr>a_acknowledged := True\<rparr> else x"
  have "\<And>x. x \<in> set (anomalies db) \<Longrightarrow> ?f x = x"
  proof -
    fix x assume x: "x \<in> set (anomalies db)"
    show "?f x = x"
    proof (cases "a_id x = a_id a")
      case True
      then have "x = a" using st x by (simp add: settled_def)
      then show ?thesis using acknowledged_update_same[OF assms(3)] by simp
    next
      case False
      then show ?thesis by simp
    qed
  qed
  then have "map ?f (anomalies db) = anomalies db" by (rule map_idI)
  moreover have "0 < length (filter (\<lambda>x. a_id x = a_id a) (anomalies db))"
    using assms(2) by (simp add: filter_empty_conv) blast
  ultimately show "AnomalyModel_acknowledge (a_id a) db = (True, db)"
    by (simp add: AnomalyModel_acknowledge_def Let_def)
  show "\<forall>db' a'. db_step\<^sup>*\<^sup>* db db' \<and> a' \<in> set (anomalies db') \<and> a_id a' = a_id a \<longrightarrow> a' = a"
  proof (intro allI impI)
    fix db' a'
    assume h: "db_step\<^sup>*\<^sup>* db db' \<and> a' \<in> set (anomalies db') \<and> a_id a' = a_id a"
    then have "settled a db'" using settled_steps st assms(3) by blast
    then show "a' = a" using h by (simp add: settled_def)
  qed
qed

theorem acknowledge_idempotent_one_way_witness:
  "anomalies_keyed sample_db \<and> sample_finding \<in> set (anomalies sample_db)
   \<and> a_acknowledged sample_finding
   \<and> AnomalyModel_acknowledge 1 sample_db = (True, sample_db)
   \<and> db_step\<^sup>*\<^sup>* sample_db (snd (AnomalyModel_delete 7 sample_db))
   \<and> AnomalyModel_findById 1 (snd (AnomalyModel_delete 7 sample_db)) = Some sample_finding"
proof -
  have h1: "anomalies_keyed sample_db"
    by (simp add: anomalies_keyed_def sample_db_def sample_finding_def)
  have h2: "sample_finding \<in> set (anomalies sample_db)" by (simp add: sample_db_def)
  have h3: "a_acknowledged sample_finding" by (simp add: sample_finding_def)
  note general = acknowledge_idempotent_one_way [OF h1 h2 h3]
  have i: "a_id sample_finding = 1" by (simp add: sample_finding_def)
  have ack: "AnomalyModel_acknowledge 1 sample_db = (True, sample_db)"
    using general [THEN conjunct1] by (simp only: i)
  let ?db' = "snd (AnomalyModel_delete 7 sample_db)"
  have "db_step sample_db ?db'"
    by (rule step_delete [of 7 sample_db "fst (AnomalyModel_delete 7 sample_db)"]) simp
  then have steps: "db_step\<^sup>*\<^sup>* sample_db ?db'" by (rule r_into_rtranclp)
  have found: "AnomalyModel_findById 1 ?db' = Some sample_finding"
    by (simp add: AnomalyModel_findById_def AnomalyModel_delete_def Let_def sample_db_def
        sample_finding_def)
  show ?thesis using h1 h2 h3 ack steps found by (intro conjI)
qed

text \<open>
  Claim C9, as stated, fails: a finding that references transaction 10 is gone once
  \<^verbatim>\<open>TransactionModel.delete(10)\<close> has run, while the user account is still there.
\<close>

theorem finding_survives_transaction_counterexample:
  "AnomalyModel_findById 1 sample_db = Some sample_finding
   \<and> a_transaction_id sample_finding = Some 10
   \<and> fst (TransactionModel_delete 10 sample_db) = True
   \<and> users (snd (TransactionModel_delete 10 sample_db)) = users sample_db
   \<and> AnomalyModel_findById 1 (snd (TransactionModel_delete 10 sample_db)) = None
   \<and> anomalies (snd (TransactionModel_delete 10 sample_db)) = []"
  by (simp add: AnomalyModel_findById_def TransactionModel_delete_def delete_transactions_def
      Let_def sample_db_def sample_finding_def)

text \<open>
  Claim C9, amended. A finding is deleted by \<^verbatim>\<open>AnomalyModel.delete\<close> with its id, by the
  deletion of its user account, and by the deletion of the transaction it references:
  the foreign key on \<^verbatim>\<open>transaction_id\<close> cascades, so the finding goes with the
  transaction. Deleting a transaction removes exactly the findings that reference it
  and leaves the others, those without a reference included, as they are. Creating
  and acknowledging a finding delete none.
\<close>

theorem findings_deleted_by_delete_and_cascades:
  "anomalies (snd (TransactionModel_delete id' db)) =
     (if id' \<in> set (map t_id (transactions db))
      then filter (\<lambda>a. a_transaction_id a \<noteq> Some id') (anomalies db)
      else anomalies db)
   \<and> anomalies (snd (AnomalyModel_delete id' db)) = filter (\<lambda>a. a_id a \<noteq> id') (anomalies db)
   \<and> anomalies (snd (delete_user userId db)) =
       (if userId \<in> set (map u_id (users db))
        then filter (\<lambda>a. a_user_id a \<noteq> userId
                        \<and> (case a_transaction_id a of
                              None \<Rightarrow> True
                            | Some t \<Rightarrow> t \<notin> set (map t_id (filter (\<lambda>t. t_user_id t = userId)
                                                             (transactions db)))))
               (anomalies db)
        else anomalies db)
   \<and> map a_id (anomalies (snd (AnomalyModel_acknowledge id' db))) = map a_id (anomalies db)
   \<and> take (length (anomalies db)) (anomalies (snd (AnomalyModel_create clock data db)))
       = anomalies db"
proof (intro conjI)
  let ?del = "map t_id (filter (\<lambda>t. t_id t = id') (transactions db))"
  have s: "set ?del = (if id' \<in> set (map t_id (transactions db)) then {id'} else {})"
    by auto
  have "anomalies (snd (TransactionModel_delete id' db))
          = filter (\<lambda>a. case a_transaction_id a of None \<Rightarrow> True | Some t \<Rightarrow> t \<notin> set ?del)
              (anomalies db)"
    by (simp add: TransactionModel_delete_def delete_transactions_def Let_def)
  also have "\<dots> = (if id' \<in> set (map t_id (transactions db))
      then filter (\<lambda>a. a_transaction_id a \<noteq> Some id') (anomalies db)
      else anomalies db)"
    unfolding s by (auto intro!: filter_cong filter_True split: option.splits)
  finally show "anomalies (snd (TransactionModel_delete id' db)) =
     (if id' \<in> set (map t_id (transactions db))
      then filter (\<lambda>a. a_transaction_id a \<noteq> Some id') (anomalies db)
      else anomalies db)" .
next
  show "anomalies (snd (AnomalyModel_delete id' db)) = filter (\<lambda>a. a_id a \<noteq> id') (anomalies db)"
    by (simp add: AnomalyModel_delete_def Let_def)
next
  have e: "(filter (\<lambda>u. u_id u = userId) (users db) = []) = (userId \<notin> set (map u_id (users db)))"
    by (auto simp: filter_empty_conv)
  show "anomalies (snd (delete_user userId db)) =
       (if userId \<in> set (map u_id (users db))
        then filter (\<lambda>a. a_user_id a \<noteq> userId
                        \<and> (case a_transaction_id a of
                              None \<Rightarrow> True
                            | Some t \<Rightarrow> t \<notin> set (map t_id (filter (\<lambda>t. t_user_id t = userId)
                                                             (transactions db)))))
               (anomalies db)
        else anomalies db)"
    by (simp add: delete_user_def delete_transactions_def Let_def e conj_commute)
next
  show "map a_id (anomalies (snd (AnomalyModel_acknowledge id' db))) = map a_id (anomalies db)"
    by (simp add: AnomalyModel_acknowledge_def Let_def comp_def if_distrib cong: if_cong)
next
  show "take (length (anomalies db)) (anomalies (snd (AnomalyModel_create clock data db)))
       = anomalies db"
    by (simp add: AnomalyModel_create_def Let_def)
qed

theorem findings_deleted_by_delete_and_cascades_witness:
  "3 \<in> set (map t_id (transactions sample_db))
   \<and> anomalies (snd (TransactionModel_delete 3 sample_db)) = [sample_finding]
   \<and> anomalies (snd (TransactionModel_delete 10 sample_db)) = []
   \<and> anomalies (snd (delete_user 1 sample_db)) = []"
proof -
  have m3: "3 \<in> set (map t_id (transactions sample_db))" by (simp add: sample_db_def)
  have m10: "10 \<in> set (map t_id (transactions sample_db))" by (simp add: sample_db_def)
  have u: "1 \<in> set (map u_id (users sample_db))" by (simp add: sample_db_def)
  have a: "anomalies sample_db = [sample_finding]" by (simp add: sample_db_def)
  note general = findings_deleted_by_delete_and_cascades
  have "anomalies (snd (TransactionModel_delete 3 sample_db)) = [sample_finding]"
    using general [of 3 sample_db, THEN conjunct1] m3
    by (simp add: a sample_finding_def)
  moreover have "anomalies (snd (TransactionModel_delete 10 sample_db)) = []"
    using general [of 10 sample_db, THEN conjunct1] m10
    by (simp add: a sample_finding_def)
  moreover have "anomalies (snd (delete_user 1 sample_db)) = []"
    using general [of _ sample_db 1, THEN conjunct2, THEN conjunct2, THEN conjunct1] u
    by (simp add: a sample_finding_def)
  ultimately show ?thesis using m3 by (intro conjI)
qed

section \<open>The text codec gives back well-formed strings\<close>

lemma unat_byte: "n < 256 \<Longrightarrow> unat (of_nat n :: byte) = n"
  by (simp add: unat_of_nat)

lemma continuation_byte: "0x80 + n mod 0x40 < (256 :: nat)"
proof -
  have "n mod 0x40 < 0x40" by simp
  then show ?thesis by linarith
qed

lemma utf8_bytes_1: "c < 0x80 \<Longrightarrow> map unat (utf8_bytes c) = [c]"
proof -
  assume c: "c < 0x80"
  then have "utf8_bytes c = [of_nat c]" by (simp add: utf8_bytes_def)
  moreover have "c < 256" using c by linarith
  ultimately show ?thesis by (simp only: list.map unat_byte)
qed

lemma utf8_bytes_2:
  assumes "0x80 \<le> c" and "c < 0x800"
  shows "map unat (utf8_bytes c) = [0xC0 + c div 0x40, 0x80 + c mod 0x40]"
proof -
  have "utf8_bytes c = [of_nat (0xC0 + c div 0x40), of_nat (0x80 + c mod 0x40)]"
    using assms by (simp add: utf8_bytes_def del: of_nat_add of_nat_numeral)
  moreover have "0xC0 + c div 0x40 < 256" using assms by linarith
  ultimately show ?thesis by (simp only: list.map unat_byte continuation_byte)
qed

lemma utf8_bytes_3:
  assumes "0x800 \<le> c" and "c < 0x10000"
  shows "map unat (utf8_bytes c) =
           [0xE0 + c div 0x1000, 0x80 + c div 0x40 mod 0x40, 0x80 + c mod 0x40]"
proof -
  have "utf8_bytes c = [of_nat (0xE0 + c div 0x1000), of_nat (0x80 + c div 0x40 mod 0x40),
                        of_nat (0x80 + c mod 0x40)]"
    using assms by (simp add: utf8_bytes_def del: of_nat_add of_nat_numeral)
  moreover have "0xE0 + c div 0x1000 < 256" using assms by linarith
  ultimately show ?thesis by (simp only: list.map unat_byte continuation_byte)
qed

lemma utf8_bytes_4:
  assumes "0x10000 \<le> c" and "c < 0x110000"
  shows "map unat (utf8_bytes c) =
           [0xF0 + c div 0x40000, 0x80 + c div 0x1000 mod 0x40,
            0x80 + c div 0x40 mod 0x40, 0x80 + c mod 0x40]"
proof -
  have "utf8_bytes c = [of_nat (0xF0 + c div 0x40000), of_nat (0x80 + c div 0x1000 mod 0x40),
                        of_nat (0x80 + c div 0x40 mod 0x40), of_nat (0x80 + c mod 0x40)]"
    using assms by (simp add: utf8_bytes_def del: of_nat_add of_nat_numeral)
  moreover have "0xF0 + c div 0x40000 < 256" using assms by linarith
  ultimately show ?thesis by (simp only: list.map unat_byte continuation_byte)
qed

lemma decode_1: "c < 0x80 \<Longrightarrow> utf8_scalars None (c # bs) = c # utf8_scalars None bs"
  by (simp add: lead_byte_def)

lemma decode_2:
  assumes "0x80 \<le> c" and "c < 0x800"
  shows "utf8_scalars None ((0xC0 + c div 0x40) # (0x80 + c mod 0x40) # bs)
           = c # utf8_scalars None bs"
proof -
  define a where "a = c div 0x40"
  define b where "b = c mod 0x40"
  have c: "c = a * 0x40 + b" by (simp add: a_def b_def)
  have a: "2 \<le> a" "a < 0x20" using assms by (simp_all add: a_def) 
  have b: "b < 0x40" by (simp add: b_def)
  have "lead_byte (0xC0 + a) = Start a 1 0x80 0xBF"
    using a by (simp add: lead_byte_def)
  then have "utf8_scalars None ((0xC0 + a) # (0x80 + b) # bs) = c # utf8_scalars None bs"
    using b by (simp add: c)
  then show ?thesis by (simp only: a_def b_def)
qed


lemma decode_3:
  assumes "0x800 \<le> c" and "c < 0x10000" and "c < 0xD800 \<or> 0xE000 \<le> c"
  shows "utf8_scalars None
           ((0xE0 + c div 0x1000) # (0x80 + c div 0x40 mod 0x40) # (0x80 + c mod 0x40) # bs)
           = c # utf8_scalars None bs"
proof -
  define a where "a = c div 0x40 div 0x40"
  define b where "b = c div 0x40 mod 0x40"
  define d where "d = c mod 0x40"
  have a': "c div 0x1000 = a" by (simp add: a_def div_mult2_eq[symmetric])
  have c: "c = (a * 0x40 + b) * 0x40 + d" by (simp add: a_def b_def d_def)
  have b: "b < 0x40" by (simp add: b_def)
  have d: "d < 0x40" by (simp add: d_def)
  have flat: "c = 0x1000 * a + 0x40 * b + d" using c by (simp add: algebra_simps)
  have a: "a < 0x10" using assms(2) flat by linarith
  have lo: "a = 0 \<Longrightarrow> 0x20 \<le> b" using assms(1) flat d by linarith
  have hi: "a = 13 \<Longrightarrow> b \<le> 0x1F" using assms(2,3) flat b d by linarith
  have "lead_byte (0xE0 + a) =
          Start a 2 (if a = 0 then 0xA0 else 0x80) (if a = 13 then 0x9F else 0xBF)"
    using a by (simp add: lead_byte_def)
  then have "utf8_scalars None ((0xE0 + a) # (0x80 + b) # (0x80 + d) # bs)
               = c # utf8_scalars None bs"
    using b d lo hi by (simp add: c)
  then show ?thesis by (simp only: a' b_def d_def)
qed

lemma decode_4:
  assumes "0x10000 \<le> c" and "c < 0x110000"
  shows "utf8_scalars None
           ((0xF0 + c div 0x40000) # (0x80 + c div 0x1000 mod 0x40)
              # (0x80 + c div 0x40 mod 0x40) # (0x80 + c mod 0x40) # bs)
           = c # utf8_scalars None bs"
proof -
  define a where "a = c div 0x40 div 0x40 div 0x40"
  define b where "b = c div 0x40 div 0x40 mod 0x40"
  define d where "d = c div 0x40 mod 0x40"
  define e where "e = c mod 0x40"
  have a': "c div 0x40000 = a" by (simp add: a_def div_mult2_eq[symmetric])
  have b': "c div 0x1000 mod 0x40 = b" by (simp add: b_def div_mult2_eq[symmetric])
  have c: "c = ((a * 0x40 + b) * 0x40 + d) * 0x40 + e" by (simp add: a_def b_def d_def e_def)
  have b: "b < 0x40" by (simp add: b_def)
  have d: "d < 0x40" by (simp add: d_def)
  have e: "e < 0x40" by (simp add: e_def)
  have flat: "c = 0x40000 * a + 0x1000 * b + 0x40 * d + e"
    using c by (simp add: algebra_simps)
  have a: "a \<le> 4" using assms(2) flat by linarith
  have lo: "a = 0 \<Longrightarrow> 0x10 \<le> b" using assms(1) flat d e by linarith
  have hi: "a = 4 \<Longrightarrow> b \<le> 0x0F" using assms(2) flat by linarith
  have "lead_byte (0xF0 + a) =
          Start a 3 (if a = 0 then 0x90 else 0x80) (if a = 4 then 0x8F else 0xBF)"
    using a by (simp add: lead_byte_def)
  then have "utf8_scalars None ((0xF0 + a) # (0x80 + b) # (0x80 + d) # (0x80 + e) # bs)
               = c # utf8_scalars None bs"
    using b d e lo hi by (simp add: c)
  then show ?thesis by (simp only: a' b' d_def e_def)
qed

lemma decode_scalar:
  assumes "is_scalar c"
  shows "utf8_scalars None (map unat (utf8_bytes c) @ bs) = c # utf8_scalars None bs"
proof -
  have lt: "c < 0x110000" using assms by (auto simp: is_scalar_def)
  consider "c < 0x80" | "0x80 \<le> c \<and> c < 0x800" | "0x800 \<le> c \<and> c < 0x10000"
    | "0x10000 \<le> c"
    by linarith
  then show ?thesis
  proof cases
    case 1
    then show ?thesis by (simp only: utf8_bytes_1 decode_1 append_Cons append_Nil)
  next
    case 2
    then show ?thesis by (simp only: utf8_bytes_2 decode_2 append_Cons append_Nil)
  next
    case 3
    moreover have "c < 0xD800 \<or> 0xE000 \<le> c" using assms by (auto simp: is_scalar_def)
    ultimately show ?thesis by (simp only: utf8_bytes_3 decode_3 append_Cons append_Nil)
  next
    case 4
    then show ?thesis using lt by (simp only: utf8_bytes_4 decode_4 append_Cons append_Nil)
  qed
qed

lemma decode_scalars:
  "list_all is_scalar cs \<Longrightarrow> utf8_scalars None (map unat (concat (map utf8_bytes cs))) = cs"
proof (induction cs)
  case Nil
  show ?case by simp
next
  case (Cons c cs)
  then have "is_scalar c" and "utf8_scalars None (map unat (concat (map utf8_bytes cs))) = cs"
    by simp_all
  then show ?case by (simp add: decode_scalar)
qed


lemma unit_single:
  fixes u :: "16 word"
  assumes "\<not> (0xD800 \<le> u \<and> u \<le> 0xDFFF)"
  shows "is_scalar (unat u)" and "code_units (unat u) = [u]"
proof -
  have "unat u < 2 ^ LENGTH(16)" by (rule unsigned_less)
  then have lt: "unat u < 0x10000" by simp
  have "unat u < 0xD800 \<or> 0xDFFF < unat u"
    using assms by (simp add: word_le_nat_alt) linarith
  then show "is_scalar (unat u)" using lt by (auto simp: is_scalar_def)
  show "code_units (unat u) = [u]" using lt by (simp add: code_units_def)
qed

lemma unit_pair:
  fixes u v :: "16 word"
  assumes "0xD800 \<le> u" and "u \<le> 0xDBFF" and "0xDC00 \<le> v" and "v \<le> 0xDFFF"
  shows "is_scalar (0x10000 + (unat u - 0xD800) * 0x400 + (unat v - 0xDC00))"
    and "code_units (0x10000 + (unat u - 0xD800) * 0x400 + (unat v - 0xDC00)) = [u, v]"
proof -
  define h where "h = unat u - 0xD800"
  define l where "l = unat v - 0xDC00"
  have u: "0xD800 \<le> unat u" "unat u \<le> 0xDBFF" using assms(1,2) by (simp_all add: word_le_nat_alt)
  have v: "0xDC00 \<le> unat v" "unat v \<le> 0xDFFF" using assms(3,4) by (simp_all add: word_le_nat_alt)
  have h: "h < 0x400" "0xD800 + h = unat u" using u by (simp_all add: h_def)
  have l: "l < 0x400" "0xDC00 + l = unat v" using v by (simp_all add: l_def)
  have "0x10000 + h * 0x400 + l < 0x110000" using h(1) l(1) by linarith
  then have "is_scalar (0x10000 + h * 0x400 + l)" by (simp add: is_scalar_def)
  then show "is_scalar (0x10000 + (unat u - 0xD800) * 0x400 + (unat v - 0xDC00))"
    by (simp only: h_def l_def)
  have "(h * 0x400 + l) div 0x400 = h" "(h * 0x400 + l) mod 0x400 = l"
    using l(1) by simp_all
  then have "code_units (0x10000 + h * 0x400 + l)
               = [of_nat (0xD800 + h), of_nat (0xDC00 + l)]"
    by (simp add: code_units_def del: of_nat_add of_nat_numeral)
  then have "code_units (0x10000 + h * 0x400 + l) = [u, v]"
    by (simp only: h(2) l(2)) simp
  then show "code_units (0x10000 + (unat u - 0xD800) * 0x400 + (unat v - 0xDC00)) = [u, v]"
    by (simp only: h_def l_def)
qed

lemma well_formed_scalar_values:
  "well_formed str \<Longrightarrow>
   list_all is_scalar (scalar_values str) \<and> concat (map code_units (scalar_values str)) = str"
proof (induction str rule: scalar_values.induct)
  case 1
  show ?case by simp
next
  case (2 u)
  then have ns: "\<not> (0xD800 \<le> u \<and> u \<le> 0xDFFF)" by simp
  then have "scalar_values [u] = [unat u]" by auto
  then show ?case using unit_single[OF ns] by simp
next
  case (3 u v rest)
  show ?case
  proof (cases "0xD800 \<le> u \<and> u \<le> 0xDBFF \<and> 0xDC00 \<le> v \<and> v \<le> 0xDFFF")
    case True
    then have "well_formed rest" using "3.prems" by simp
    then have "list_all is_scalar (scalar_values rest)
               \<and> concat (map code_units (scalar_values rest)) = rest"
      using "3.IH"(1) True by simp
    moreover have "scalar_values (u # v # rest) =
        (0x10000 + (unat u - 0xD800) * 0x400 + (unat v - 0xDC00)) # scalar_values rest"
      using True by simp
    ultimately show ?thesis using True unit_pair[of u v] by simp
  next
    case False
    then have s: "\<not> (0xD800 \<le> u \<and> u \<le> 0xDFFF)" and w: "well_formed (v # rest)"
      using "3.prems" by simp_all
    have "list_all is_scalar (scalar_values (v # rest))
               \<and> concat (map code_units (scalar_values (v # rest))) = v # rest"
      using "3.IH"(2) False w by simp
    moreover have "scalar_values (u # v # rest) = unat u # scalar_values (v # rest)"
      using False s by auto
    ultimately show ?thesis using unit_single[OF s] by simp
  qed
qed

lemma unat_not_BOM:
  fixes u :: "16 word"
  assumes "u \<noteq> 0xFEFF"
  shows "unat u \<noteq> 0xFEFF"
proof
  assume "unat u = 0xFEFF"
  then have "(of_nat (unat u) :: 16 word) = of_nat 0xFEFF" by (simp only:)
  then have "u = 0xFEFF" by simp
  then show False using assms by simp
qed

lemma first_scalar_value:
  assumes "well_formed str" and "\<not> starts_with_BOM str"
  shows "(case scalar_values str of [] \<Rightarrow> []
          | c # rest \<Rightarrow> if c = 0xFEFF then rest else scalar_values str) = scalar_values str"
proof (cases str rule: scalar_values.cases)
  case 1
  then show ?thesis by simp
next
  case (2 u)
  then have "u \<noteq> 0xFEFF" using assms(2) by (simp add: starts_with_BOM_def)
  then have "unat u \<noteq> 0xFEFF" by (rule unat_not_BOM)
  then show ?thesis using 2 by simp
next
  case (3 u v rest)
  then have "u \<noteq> 0xFEFF" using assms(2) by (simp add: starts_with_BOM_def)
  then have "unat u \<noteq> 0xFEFF" by (rule unat_not_BOM)
  then show ?thesis using 3 by simp
qed

lemma utf8_roundtrip:
  assumes "well_formed str" and "\<not> starts_with_BOM str"
  shows "utf8_decode (utf8_encode str) = str"
proof -
  have s: "list_all is_scalar (scalar_values str)"
    and c: "concat (map code_units (scalar_values str)) = str"
    using well_formed_scalar_values[OF assms(1)] by simp_all
  have "utf8_scalars None (map unat (utf8_encode str)) = scalar_values str"
    unfolding utf8_encode_def using s by (rule decode_scalars)
  then show ?thesis
    by (simp add: utf8_decode_def Let_def first_scalar_value[OF assms] c)
qed

text \<open>Strings of code units below 128 are encoded unit by unit.\<close>

lemma ascii_scalar_values: "\<forall>u\<in>set str. u < 0x80 \<Longrightarrow> scalar_values str = map unat str"
proof (induction str rule: scalar_values.induct)
  case 1
  show ?case by simp
next
  case (2 u)
  then have "u < 0x80" by simp
  then have "\<not> 0xD800 \<le> u" by (simp add: word_le_def word_less_def)
  then show ?case by simp
next
  case (3 u v rest)
  then have "u < 0x80" by simp
  then have "\<not> 0xD800 \<le> u" by (simp add: word_le_def word_less_def)
  then show ?case using 3 by simp
qed

lemma concat_singletons: "concat (map (\<lambda>x. [f x]) xs) = map f xs"
  by (induction xs) simp_all

lemma ascii_utf8_encode:
  assumes "\<forall>u\<in>set str. u < 0x80"
  shows "utf8_encode str = map ucast str"
proof -
  have "\<And>u :: 16 word. u < 0x80 \<Longrightarrow> utf8_bytes (unat u) = [ucast u]"
  proof -
    fix u :: "16 word"
    assume "u < 0x80"
    then have "unat u < 0x80" by (simp add: word_less_nat_alt)
    then show "utf8_bytes (unat u) = [ucast u]" by (simp add: utf8_bytes_def)
  qed
  then have "map utf8_bytes (map unat str) = map (\<lambda>u. [ucast u]) str"
    using assms by simp
  then have "utf8_encode str = concat (map (\<lambda>u. [ucast u]) str)"
    by (simp only: utf8_encode_def ascii_scalar_values[OF assms])
  then show ?thesis by (simp only: concat_singletons)
qed

lemma utf8_encode_letters: "utf8_encode (replicate n 0x61) = replicate n 0x61"
  by (simp add: ascii_utf8_encode)

section \<open>Encryption envelope\<close>

lemma ucast_roundtrip: "map ucast (fromCharCode bytes) = bytes"
proof -
  have "\<And>b :: byte. (ucast (ucast b :: 16 word) :: byte) = b"
    by (rule ucast_up_ucast_id) (simp add: is_up)
  then show ?thesis by (simp add: fromCharCode_def comp_def)
qed

lemma base64_roundtrip:
  assumes "base64_contract P" and "length bytes \<le> argument_limit P"
  shows "\<exists>b64. ab2base64 P bytes = Inr b64 \<and> base642ab P b64 = Inr bytes
               \<and> (b64 = [] \<longrightarrow> bytes = [])"
proof -
  from assms(1) obtain b64 where t: "btoa P (fromCharCode bytes) = Inr b64"
    "atob P b64 = Inr (fromCharCode bytes)" "b64 = [] \<longrightarrow> bytes = []"
    unfolding base64_contract_def by blast
  then show ?thesis using assms(2) by (simp add: ab2base64_def base642ab_def ucast_roundtrip)
qed

lemma short_buffer: "length bytes \<le> 16 \<Longrightarrow> length bytes \<le> argument_limit P"
  by (simp add: argument_limit_def)

lemma sample_platform_base64: "base64_contract sample_platform"
proof -
  have lt: "\<And>b :: byte. (ucast b :: 16 word) < 256"
  proof -
    fix b :: byte
    have "uint (ucast b :: 16 word) = uint b" by (rule uint_up_ucast) (simp add: is_up)
    moreover have "uint b < 2 ^ LENGTH(8)" by (rule unsigned_less)
    ultimately have "uint (ucast b :: 16 word) < uint (256 :: 16 word)" by simp
    then show "(ucast b :: 16 word) < 256" by (simp only: word_less_def)
  qed
  have "\<And>bytes. list_all (\<lambda>c. c < 256) (fromCharCode bytes)"
    using lt by (simp add: fromCharCode_def list_all_iff)
  then show ?thesis
    by (simp add: base64_contract_def sample_platform_def fromCharCode_def)
qed

text \<open>
  Claim C1, as stated, does not hold. \<^verbatim>\<open>TextDecoder\<close> drops a leading U+FEFF and
  \<^verbatim>\<open>TextEncoder\<close> writes U+FFFD for an unpaired surrogate, so a plaintext that starts
  with U+FEFF comes back without it and an unpaired surrogate comes back as U+FFFD. And
  \<^verbatim>\<open>encryptData\<close> throws a \<^verbatim>\<open>RangeError\<close> when the ciphertext has more bytes than a
  call takes arguments: here 131072 letters \<^verbatim>\<open>a\<close> on an engine that accepts as many
  arguments, the ciphertext being longer than the plaintext.
\<close>

theorem roundtrip_changes_plaintext_counterexample:
  "deriveKey sample_platform [0x70, 0x77] [0x01, 0x02] = Inr sample_key
   \<and> (\<exists>env. encryptData sample_platform (replicate 12 0x09) [0xFEFF, 0x7B, 0x7D] sample_key
                 = Inr env
         \<and> decryptData sample_platform (encryptedData env) (iv env) sample_key
             = Inr [0x7B, 0x7D])
   \<and> (\<exists>env. encryptData sample_platform (replicate 12 0x09) [0x61, 0xD83D] sample_key
                 = Inr env
         \<and> decryptData sample_platform (encryptedData env) (iv env) sample_key
             = Inr [0x61, 0xFFFD])
   \<and> encryptData sample_platform (replicate 12 0x09) (replicate 131072 0x61) sample_key
       = Inl RangeError"
proof -
  let ?iv = "replicate 12 (0x09 :: byte)"
  let ?iv64 = "replicate 12 (0x09 :: 16 word)"
  have k: "deriveKey sample_platform [0x70, 0x77] [0x01, 0x02] = Inr sample_key"
    by (simp add: deriveKey_def str2ab_def sample_platform_def sample_key_def
          utf8_encode_def utf8_bytes_def)
  have e1: "encryptData sample_platform ?iv [0xFEFF, 0x7B, 0x7D] sample_key
              = Inr \<lparr>encryptedData = [0x70, 0x77, 0x01, 0x02, 0xEF, 0xBB, 0xBF, 0x7B, 0x7D],
                     iv = ?iv64\<rparr>"
    by (simp add: encryptData_def ab2base64_def str2ab_def fromCharCode_def Let_def
          argument_limit_def sample_platform_def sample_key_def utf8_encode_def utf8_bytes_def
          list_all_iff)
  have d1: "decryptData sample_platform [0x70, 0x77, 0x01, 0x02, 0xEF, 0xBB, 0xBF, 0x7B, 0x7D]
              ?iv64 sample_key = Inr [0x7B, 0x7D]"
    by (simp add: decryptData_def base642ab_def ab2str_def sample_platform_def sample_key_def
          utf8_decode_def lead_byte_def code_units_def list_all_iff)
  have e2: "encryptData sample_platform ?iv [0x61, 0xD83D] sample_key
              = Inr \<lparr>encryptedData = [0x70, 0x77, 0x01, 0x02, 0x61, 0xEF, 0xBF, 0xBD],
                     iv = ?iv64\<rparr>"
    by (simp add: encryptData_def ab2base64_def str2ab_def fromCharCode_def Let_def
          argument_limit_def sample_platform_def sample_key_def utf8_encode_def utf8_bytes_def
          list_all_iff)
  have d2: "decryptData sample_platform [0x70, 0x77, 0x01, 0x02, 0x61, 0xEF, 0xBF, 0xBD]
              ?iv64 sample_key = Inr [0x61, 0xFFFD]"
    by (simp add: decryptData_def base642ab_def ab2str_def sample_platform_def sample_key_def
          utf8_decode_def lead_byte_def code_units_def list_all_iff)
  have e3: "encryptData sample_platform ?iv (replicate 131072 0x61) sample_key = Inl RangeError"
    by (simp add: encryptData_def ab2base64_def str2ab_def argument_limit_def
          sample_platform_def sample_key_def utf8_encode_letters)
  have r1: "\<exists>env. encryptData sample_platform ?iv [0xFEFF, 0x7B, 0x7D] sample_key = Inr env
         \<and> decryptData sample_platform (encryptedData env) (iv env) sample_key
             = Inr [0x7B, 0x7D]"
    using d1 by (simp add: e1)
  have r2: "\<exists>env. encryptData sample_platform ?iv [0x61, 0xD83D] sample_key = Inr env
         \<and> decryptData sample_platform (encryptedData env) (iv env) sample_key
             = Inr [0x61, 0xFFFD]"
    using d2 by (simp add: e2)
  show ?thesis using k r1 r2 e3 by (intro conjI)
qed

text \<open>
  Claim C1, amended. On a platform whose text codec is the UTF-8 codec of the Encoding
  Standard, whose Base64 decodes what it encoded and whose cipher decrypts under the
  same key and IV what it encrypted: for every password and salt from which
  \<^verbatim>\<open>deriveKey\<close> gives a key, every IV of \<^verbatim>\<open>IV_LENGTH\<close> bytes and every plaintext string
  \<open>M\<close>, the empty one included, that is well-formed UTF-16, does not start with
  U+FEFF, and whose ciphertext has no more bytes than a call takes arguments,
  \<^verbatim>\<open>encryptData\<close> returns an envelope, and \<^verbatim>\<open>decryptData\<close> of that envelope's two fields
  under the same key returns \<open>M\<close>.
\<close>

theorem encrypt_decrypt_roundtrip:
  assumes b64: "base64_contract P"
    and enc: "TextEncoder_encode P = utf8_encode"
    and dec: "TextDecoder_decode P = utf8_decode"
    and key: "deriveKey P password salt = Inr key"
    and iv: "length iv' = IV_LENGTH"
    and gcm: "\<exists>c. subtle_encrypt P key iv' (utf8_encode M) = Inr c
                  \<and> length c \<le> argument_limit P
                  \<and> subtle_decrypt P key iv' c = Inr (utf8_encode M)"
    and wf: "well_formed M"
    and bom: "\<not> starts_with_BOM M"
  shows "\<exists>env. encryptData P iv' M key = Inr env
               \<and> decryptData P (encryptedData env) (iv env) key = Inr M"
proof -
  from gcm obtain c where c: "subtle_encrypt P key iv' (utf8_encode M) = Inr c"
    "length c \<le> argument_limit P"
    "subtle_decrypt P key iv' c = Inr (utf8_encode M)" by blast
  from base64_roundtrip[OF b64 c(2)] obtain ct where
    ct: "ab2base64 P c = Inr ct" "base642ab P ct = Inr c"
    by blast
  have "length iv' \<le> argument_limit P"
    using iv by (intro short_buffer) (simp add: IV_LENGTH_def)
  from base64_roundtrip[OF b64 this] obtain it where
    it: "ab2base64 P iv' = Inr it" "base642ab P it = Inr iv'"
    by blast
  have utf8: "utf8_decode (utf8_encode M) = M" using wf bom by (rule utf8_roundtrip)
  have "encryptData P iv' M key = Inr \<lparr>encryptedData = ct, iv = it\<rparr>"
    by (simp add: encryptData_def str2ab_def enc c ct it)
  moreover have "decryptData P ct it key = Inr M"
    by (simp add: decryptData_def ab2str_def dec c ct it utf8)
  ultimately show ?thesis by simp
qed

theorem encrypt_decrypt_roundtrip_witness:
  "base64_contract sample_platform
   \<and> TextEncoder_encode sample_platform = utf8_encode
   \<and> TextDecoder_decode sample_platform = utf8_decode
   \<and> deriveKey sample_platform [0x70, 0x77] [0x01, 0x02] = Inr sample_key
   \<and> length (replicate 12 (0x09 :: byte)) = IV_LENGTH
   \<and> well_formed [0x7B, 0xE9, 0x20AC, 0xD83D, 0xDE00, 0x7D]
   \<and> \<not> starts_with_BOM [0x7B, 0xE9, 0x20AC, 0xD83D, 0xDE00, 0x7D]
   \<and> well_formed [] \<and> \<not> starts_with_BOM []
   \<and> (\<exists>env. encryptData sample_platform (replicate 12 0x09)
                 [0x7B, 0xE9, 0x20AC, 0xD83D, 0xDE00, 0x7D] sample_key = Inr env
         \<and> decryptData sample_platform (encryptedData env) (iv env) sample_key
             = Inr [0x7B, 0xE9, 0x20AC, 0xD83D, 0xDE00, 0x7D])
   \<and> (\<exists>env. encryptData sample_platform (replicate 12 0x09) [] sample_key = Inr env
         \<and> decryptData sample_platform (encryptedData env) (iv env) sample_key = Inr [])"
proof -
  let ?iv = "replicate 12 (0x09 :: byte)"
  let ?M = "[0x7B, 0xE9, 0x20AC, 0xD83D, 0xDE00, 0x7D] :: jsstring"
  have e: "TextEncoder_encode sample_platform = utf8_encode" by (simp add: sample_platform_def)
  have d: "TextDecoder_decode sample_platform = utf8_decode" by (simp add: sample_platform_def)
  have k: "deriveKey sample_platform [0x70, 0x77] [0x01, 0x02] = Inr sample_key"
    by (simp add: deriveKey_def str2ab_def sample_platform_def sample_key_def
          utf8_encode_def utf8_bytes_def)
  have i: "length ?iv = IV_LENGTH" by (simp add: IV_LENGTH_def)
  have g1: "\<exists>c. subtle_encrypt sample_platform sample_key ?iv (utf8_encode ?M) = Inr c
                  \<and> length c \<le> argument_limit sample_platform
                  \<and> subtle_decrypt sample_platform sample_key ?iv c = Inr (utf8_encode ?M)"
    by (simp add: sample_platform_def sample_key_def argument_limit_def
          utf8_encode_def utf8_bytes_def)
  have g2: "\<exists>c. subtle_encrypt sample_platform sample_key ?iv (utf8_encode []) = Inr c
                  \<and> length c \<le> argument_limit sample_platform
                  \<and> subtle_decrypt sample_platform sample_key ?iv c = Inr (utf8_encode [])"
    by (simp add: sample_platform_def sample_key_def argument_limit_def utf8_encode_def)
  have w1: "well_formed ?M" by simp
  have b1: "\<not> starts_with_BOM ?M" by (simp add: starts_with_BOM_def)
  have w2: "well_formed []" by simp
  have b2: "\<not> starts_with_BOM []" by (simp add: starts_with_BOM_def)
  note r1 = encrypt_decrypt_roundtrip [OF sample_platform_base64 e d k i g1 w1 b1]
  note r2 = encrypt_decrypt_roundtrip [OF sample_platform_base64 e d k i g2 w2 b2]
  show ?thesis using sample_platform_base64 e d k i w1 b1 w2 b2 r1 r2 by (intro conjI)
qed

section \<open>Key manager\<close>

text \<open>
  Claim C10. For a user who already has a stored salt, \<^verbatim>\<open>initializeForUser\<close> makes no
  check and signals nothing: given the Base64 contract and the freshly drawn salt of
  \<^verbatim>\<open>SALT_LENGTH\<close> bytes, it stores the encoding of the new salt under the user's key, in
  place of the old value, and returns what \<^verbatim>\<open>deriveKey\<close> gives for the password and the
  new salt. Afterwards \<^verbatim>\<open>getSalt\<close> reads the new salt and \<^verbatim>\<open>getKeyForUser\<close> derives from
  it; the old salt is no longer in the storage.
\<close>

theorem initializeForUser_overwrites_salt:
  assumes b64: "base64_contract P"
    and stored: "ls (salt_key userId) = Some old"
    and len: "length salt = SALT_LENGTH"
  shows "\<exists>saltBase64 ls'.
           ab2base64 P salt = Inr saltBase64
           \<and> KeyManager_initializeForUser P salt userId password ls
               = (deriveKey P password salt, ls')
           \<and> ls' = ls(salt_key userId \<mapsto> saltBase64)
           \<and> SaltStorage_getSalt P userId ls' = Inr (Some salt)
           \<and> KeyManager_getKeyForUser P userId password ls' = deriveKey P password salt"
proof -
  have "length salt \<le> argument_limit P"
    using len by (intro short_buffer) (simp add: SALT_LENGTH_def)
  from base64_roundtrip[OF b64 this] obtain s64 where
    s: "ab2base64 P salt = Inr s64" "base642ab P s64 = Inr salt" "s64 = [] \<longrightarrow> salt = []"
    by blast
  have ne: "s64 \<noteq> []" using s(3) len by (auto simp: SALT_LENGTH_def)
  let ?ls = "ls(salt_key userId \<mapsto> s64)"
  have i: "KeyManager_initializeForUser P salt userId password ls
             = (deriveKey P password salt, ?ls)"
    by (simp add: KeyManager_initializeForUser_def SaltStorage_saveSalt_def s(1))
  have g: "SaltStorage_getSalt P userId ?ls = Inr (Some salt)"
    using ne by (simp add: SaltStorage_getSalt_def s(2))
  have k: "KeyManager_getKeyForUser P userId password ?ls = deriveKey P password salt"
    by (simp add: KeyManager_getKeyForUser_def g)
  show ?thesis using s(1) i g k by blast
qed

theorem initializeForUser_overwrites_salt_witness:
  "base64_contract sample_platform
   \<and> (Map.empty(salt_key 1 \<mapsto> [0x41, 0x42 :: 16 word])) (salt_key 1) = Some [0x41, 0x42]
   \<and> length (replicate 16 (0x2A :: byte)) = SALT_LENGTH
   \<and> fst (KeyManager_initializeForUser sample_platform (replicate 16 0x2A) 1 [0x70, 0x77]
            (Map.empty(salt_key 1 \<mapsto> [0x41, 0x42])))
       = Inr ([0x70, 0x77] @ replicate 16 0x2A)
   \<and> SaltStorage_getSalt sample_platform 1
        (snd (KeyManager_initializeForUser sample_platform (replicate 16 0x2A) 1 [0x70, 0x77]
                (Map.empty(salt_key 1 \<mapsto> [0x41, 0x42]))))
       = Inr (Some (replicate 16 0x2A))"
proof -
  let ?ls = "Map.empty(salt_key 1 \<mapsto> [0x41, 0x42 :: 16 word])"
  let ?salt = "replicate 16 (0x2A :: byte)"
  have h2: "?ls (salt_key 1) = Some [0x41, 0x42]" by simp
  have h3: "length ?salt = SALT_LENGTH" by (simp add: SALT_LENGTH_def)
  have d: "deriveKey sample_platform [0x70, 0x77] ?salt = Inr ([0x70, 0x77] @ ?salt)"
    by (simp add: deriveKey_def str2ab_def sample_platform_def utf8_encode_def utf8_bytes_def)
  from initializeForUser_overwrites_salt
         [where P = sample_platform and ls = ?ls and userId = 1 and old = "[0x41, 0x42]"
            and salt = ?salt and password = "[0x70, 0x77]",
          OF sample_platform_base64 h2 h3]
  obtain s64 :: jsstring and ls' where
    r: "KeyManager_initializeForUser sample_platform ?salt 1 [0x70, 0x77] ?ls
          = (deriveKey sample_platform [0x70, 0x77] ?salt, ls')"
       "SaltStorage_getSalt sample_platform 1 ls' = Inr (Some ?salt)"
    by blast
  have "fst (KeyManager_initializeForUser sample_platform ?salt 1 [0x70, 0x77] ?ls)
          = Inr ([0x70, 0x77] @ ?salt)"
    by (simp only: r(1) fst_conv d)
  moreover have "SaltStorage_getSalt sample_platform 1
        (snd (KeyManager_initializeForUser sample_platform ?salt 1 [0x70, 0x77] ?ls))
          = Inr (Some ?salt)"
    by (simp only: r(1) snd_conv r(2))
  ultimately show ?thesis using sample_platform_base64 h2 h3 by (intro conjI)
qed

section \<open>Fetching a batch of transactions\<close>

lemma Promise_all_fails:
  assumes "Inl e \<in> set ps" and "\<forall>p\<in>set ps. \<forall>e'. p = Inl e' \<longrightarrow> e' = e"
  shows "Promise_all ps = Inl e"
  using assms
proof (induction ps)
  case Nil
  then show ?case by simp
next
  case (Cons p ps)
  show ?case
  proof (cases p)
    case (Inl e')
    then have "e' = e" using Cons.prems(2) by simp
    then show ?thesis using Inl by simp
  next
    case (Inr v)
    then have "Inl e \<in> set ps" using Cons.prems(1) by auto
    moreover have "\<forall>p\<in>set ps. \<forall>e'. p = Inl e' \<longrightarrow> e' = e" using Cons.prems(2) by simp
    ultimately have "Promise_all ps = Inl e" by (rule Cons.IH)
    then show ?thesis using Inr by simp
  qed
qed

lemma Promise_all_succeeds:
  "\<forall>p\<in>set ps. \<exists>v. p = Inr v \<Longrightarrow> Promise_all ps = Inr (map projr ps)"
  by (induction ps rule: Promise_all.induct) auto

lemma decrypt_record_Inl:
  "decrypt_record P key tx = Inl e \<Longrightarrow> e = ''Failed to decrypt transaction data''"
  by (cases "decryptTransaction P (s_encrypted_data tx) (s_iv tx) key")
     (simp_all add: decrypt_record_def)

lemma sample_good_decrypts:
  "decryptTransaction sample_platform (s_encrypted_data sample_good) (s_iv sample_good) sample_key
     = Inr [0x7B, 0x7D]"
  by (simp add: decryptTransaction_def decryptData_def base642ab_def ab2str_def
      sample_platform_def sample_good_def sample_key_def utf8_decode_def lead_byte_def
      code_units_def)

lemma sample_bad_fails:
  "decryptTransaction sample_platform (s_encrypted_data sample_bad) (s_iv sample_bad) sample_key
     = Inl OperationError"
  by (simp add: decryptTransaction_def decryptData_def base642ab_def ab2str_def
      sample_platform_def sample_bad_def sample_key_def)

text \<open>
  Claim C2, as stated, fails: in a batch of two records of which the first decrypts and
  the second does not, the first is not returned either. The list of transactions stays
  as it was before the fetch (here empty), and one error is set for the whole batch.
\<close>

theorem failing_record_drops_batch_counterexample:
  "decryptTransaction sample_platform (s_encrypted_data sample_good) (s_iv sample_good) sample_key
     = Inr [0x7B, 0x7D]
   \<and> decryptTransaction sample_platform (s_encrypted_data sample_bad) (s_iv sample_bad) sample_key
     = Inl OperationError
   \<and> h_transactions (fetchTransactions sample_platform (Some sample_key)
                        (Inr [sample_good, sample_bad]) sample_state) = []
   \<and> h_error (fetchTransactions sample_platform (Some sample_key)
                  (Inr [sample_good, sample_bad]) sample_state)
       = Some ''Failed to decrypt transaction data''"
proof -
  have g: "decrypt_record sample_platform sample_key sample_good
             = Inr \<lparr>d_id = 1, d_decryptedData = [0x7B, 0x7D], d_date = ''2024-01-01'',
                    d_created_at = ''2024-01-01 10:00:00'',
                    d_updated_at = ''2024-01-01 10:00:00''\<rparr>"
    by (simp add: decrypt_record_def sample_good_decrypts) (simp add: sample_good_def)
  have b: "decrypt_record sample_platform sample_key sample_bad
             = Inl ''Failed to decrypt transaction data''"
    by (simp add: decrypt_record_def sample_bad_fails)
  have f: "fetchTransactions sample_platform (Some sample_key)
             (Inr [sample_good, sample_bad]) sample_state
           = sample_state\<lparr>h_error := Some ''Failed to decrypt transaction data''\<rparr>"
    by (simp add: fetchTransactions_def Let_def g b sample_state_def)
  have t: "h_transactions (fetchTransactions sample_platform (Some sample_key)
                        (Inr [sample_good, sample_bad]) sample_state) = []"
    by (simp only: f) (simp add: sample_state_def)
  have e: "h_error (fetchTransactions sample_platform (Some sample_key)
                  (Inr [sample_good, sample_bad]) sample_state)
       = Some ''Failed to decrypt transaction data''"
    by (simp only: f) simp
  show ?thesis
    using sample_good_decrypts sample_bad_fails t e by (intro conjI)
qed

text \<open>
  Claim C2, amended. Fetching a batch with a key is all or nothing. If the decryption of
  any record of the batch fails, the fetch fails as a whole: no record of the batch is
  returned, the list of transactions stays as it was, and the one error
  \<^verbatim>\<open>Failed to decrypt transaction data\<close> is set for the batch. If every record decrypts,
  all of them are returned, in the order of the batch, and no error is set.
\<close>

theorem fetchTransactions_all_or_nothing:
  "((\<exists>tx\<in>set batch. \<exists>err. decryptTransaction P (s_encrypted_data tx) (s_iv tx) key = Inl err)
      \<longrightarrow> fetchTransactions P (Some key) (Inr batch) st
            = st\<lparr>h_isLoading := False, h_error := Some ''Failed to decrypt transaction data''\<rparr>)
   \<and> ((\<forall>tx\<in>set batch. \<exists>d. decryptTransaction P (s_encrypted_data tx) (s_iv tx) key = Inr d)
      \<longrightarrow> fetchTransactions P (Some key) (Inr batch) st
            = st\<lparr>h_isLoading := False, h_error := None,
                 h_transactions := map (\<lambda>tx. projr (decrypt_record P key tx)) batch\<rparr>)"
proof (intro conjI impI)
  assume "\<exists>tx\<in>set batch. \<exists>err. decryptTransaction P (s_encrypted_data tx) (s_iv tx) key = Inl err"
  then obtain tx err where tx: "tx \<in> set batch"
    "decryptTransaction P (s_encrypted_data tx) (s_iv tx) key = Inl err" by blast
  let ?m = "''Failed to decrypt transaction data''"
  have "decrypt_record P key tx = Inl ?m" using tx(2) by (simp add: decrypt_record_def)
  then have "Inl ?m = decrypt_record P key tx" by (rule sym)
  then have "Inl ?m \<in> decrypt_record P key ` set batch" using tx(1) by (rule image_eqI)
  then have "Inl ?m \<in> set (map (decrypt_record P key) batch)" by (simp only: set_map)
  moreover have "\<forall>p\<in>set (map (decrypt_record P key) batch). \<forall>e'. p = Inl e' \<longrightarrow> e' = ?m"
  proof (intro ballI allI impI)
    fix p e' assume "p \<in> set (map (decrypt_record P key) batch)" and p: "p = Inl e'"
    then obtain t where "decrypt_record P key t = Inl e'" by (auto simp only: set_map)
    then show "e' = ?m" by (rule decrypt_record_Inl)
  qed
  ultimately have "Promise_all (map (decrypt_record P key) batch) = Inl ?m"
    by (rule Promise_all_fails)
  then show "fetchTransactions P (Some key) (Inr batch) st
            = st\<lparr>h_isLoading := False, h_error := Some ?m\<rparr>"
    by (simp add: fetchTransactions_def Let_def)
next
  assume a: "\<forall>tx\<in>set batch. \<exists>d. decryptTransaction P (s_encrypted_data tx) (s_iv tx) key = Inr d"
  have "\<forall>p\<in>set (map (decrypt_record P key) batch). \<exists>v. p = Inr v"
  proof
    fix p assume "p \<in> set (map (decrypt_record P key) batch)"
    then obtain t where t: "t \<in> set batch" "p = decrypt_record P key t"
      by (auto simp only: set_map)
    then obtain d where "decryptTransaction P (s_encrypted_data t) (s_iv t) key = Inr d"
      using a by blast
    then show "\<exists>v. p = Inr v" using t(2) by (simp add: decrypt_record_def)
  qed
  then have "Promise_all (map (decrypt_record P key) batch)
               = Inr (map projr (map (decrypt_record P key) batch))"
    by (rule Promise_all_succeeds)
  then show "fetchTransactions P (Some key) (Inr batch) st
            = st\<lparr>h_isLoading := False, h_error := None,
                 h_transactions := map (\<lambda>tx. projr (decrypt_record P key tx)) batch\<rparr>"
    by (simp add: fetchTransactions_def Let_def comp_def)
qed

theorem fetchTransactions_all_or_nothing_witness:
  "fetchTransactions sample_platform (Some sample_key) (Inr [sample_good, sample_bad, sample_good])
     sample_state
     = sample_state\<lparr>h_isLoading := False,
                     h_error := Some ''Failed to decrypt transaction data''\<rparr>
   \<and> fetchTransactions sample_platform (Some sample_key) (Inr [sample_good, sample_good])
       sample_state
     = sample_state\<lparr>h_isLoading := False, h_error := None,
          h_transactions :=
            map (\<lambda>tx. projr (decrypt_record sample_platform sample_key tx))
              [sample_good, sample_good]\<rparr>"
proof -
  note general = fetchTransactions_all_or_nothing
  have bad: "\<exists>tx\<in>set [sample_good, sample_bad, sample_good].
               \<exists>err. decryptTransaction sample_platform (s_encrypted_data tx) (s_iv tx) sample_key
                       = Inl err"
    using sample_bad_fails by simp
  have good: "\<forall>tx\<in>set [sample_good, sample_good].
               \<exists>d. decryptTransaction sample_platform (s_encrypted_data tx) (s_iv tx) sample_key
                       = Inr d"
    using sample_good_decrypts by simp
  show ?thesis
    using general [of "[sample_good, sample_bad, sample_good]" sample_platform sample_key
                      sample_state, THEN conjunct1, THEN mp, OF bad]
          general [of "[sample_good, sample_good]" sample_platform sample_key
                      sample_state, THEN conjunct2, THEN mp, OF good]
    by (intro conjI)
qed

end
